theory Spec2Isabelle
  imports Complex_Main "HOL-Library.Word"
begin

section \<open>Machine types of learning\_tools.h\<close>

text \<open>
  Modelled from the spec: the declarations of \<open>Square\<close> and \<open>Eval::BonaPiece\<close> are not
  in the header; the spec's data model describes both as integer codes. They are C++
  enumerations, and an enumeration whose values fit an \<open>int\<close> has an underlying type no
  wider than \<open>int\<close>; both are modelled as 32-bit words read as two's complement
  (\<open>int32_t\<close>). \<open>u64\<close> is the unsigned 64-bit index type.
\<close>

type_synonym u64 = "64 word"
type_synonym Square = "32 word"
type_synonym BonaPiece = "32 word"

text \<open>\<open>(u64)x\<close> for a value of a 32-bit signed enumeration: sign extension.\<close>

definition to_u64 :: "32 word \<Rightarrow> u64" where
  "to_u64 x = scast x"

text \<open>\<open>(Square)i\<close> and \<open>(Eval::BonaPiece)i\<close> for a \<open>u64\<close>: the low 32 bits.\<close>

definition of_u64 :: "u64 \<Rightarrow> 32 word" where
  "of_u64 i = ucast i"

section \<open>Configuration: the constants and tables the header uses but does not define\<close>

text \<open>
  \<open>SQ_NB\<close> (number of squares), \<open>Eval::fe_end\<close> (number of piece codes), the function
  \<open>Mir\<close> on squares, the table \<open>mir_piece[fe_end]\<close> filled by \<open>init()\<close>, and whether the
  build compiles \<open>ASSERT_LV3\<close> in, are parameters of the model.
\<close>

record config =
  SQ_NB :: Square
  fe_end :: BonaPiece
  Mir :: "Square \<Rightarrow> Square"
  mir_piece :: "BonaPiece list"
  assert_lv3 :: bool

text \<open>
  A read \<open>mir_piece[p]\<close>. The array has \<open>fe_end\<close> elements; an index outside it is
  undefined behaviour in C++, \<open>None\<close> here.
\<close>

definition mir_piece_at :: "config \<Rightarrow> BonaPiece \<Rightarrow> BonaPiece option" where
  "mir_piece_at cfg p =
     (if 0 \<le>s p \<and> p <s fe_end cfg \<and> unat p < length (mir_piece cfg)
      then Some (mir_piece cfg ! unat p) else None)"

section \<open>struct KK\<close>

record KK =
  kk_king0 :: Square
  kk_king1 :: Square

definition KK_min_index :: "config \<Rightarrow> u64" where
  "KK_min_index cfg = 0"

definition KK_max_index :: "config \<Rightarrow> u64" where
  "KK_max_index cfg = KK_min_index cfg + to_u64 (SQ_NB cfg) * to_u64 (SQ_NB cfg)"

definition KK_is_ok :: "config \<Rightarrow> u64 \<Rightarrow> bool" where
  "KK_is_ok cfg index \<longleftrightarrow> KK_min_index cfg \<le> index \<and> index < KK_max_index cfg"

text \<open>
  \<open>fromIndex\<close>: the king0 component is not reduced modulo \<open>SQ_NB\<close>. \<open>None\<close> is the
  failure of \<open>ASSERT_LV3(king0 < SQ_NB)\<close> in a build that has the assertion.
\<close>

definition KK_fromIndex :: "config \<Rightarrow> u64 \<Rightarrow> KK option" where
  "KK_fromIndex cfg index0 =
     (let index1 = index0 - KK_min_index cfg;
          king1 = of_u64 (index1 mod to_u64 (SQ_NB cfg));
          index2 = index1 div to_u64 (SQ_NB cfg);
          king0 = of_u64 index2
      in if assert_lv3 cfg \<and> \<not> king0 <s SQ_NB cfg then None
         else Some \<lparr>kk_king0 = king0, kk_king1 = king1\<rparr>)"

definition KK_toLowerDimensions :: "config \<Rightarrow> KK \<Rightarrow> KK list option" where
  "KK_toLowerDimensions cfg kk =
     Some [\<lparr>kk_king0 = kk_king0 kk, kk_king1 = kk_king1 kk\<rparr>]"

definition KK_toIndex :: "config \<Rightarrow> KK \<Rightarrow> u64" where
  "KK_toIndex cfg kk =
     KK_min_index cfg + to_u64 (kk_king0 kk) * to_u64 (SQ_NB cfg) + to_u64 (kk_king1 kk)"

section \<open>struct KKP\<close>

record KKP =
  kkp_king0 :: Square
  kkp_king1 :: Square
  kkp_piece :: BonaPiece

definition KKP_min_index :: "config \<Rightarrow> u64" where
  "KKP_min_index cfg = KK_max_index cfg"

definition KKP_max_index :: "config \<Rightarrow> u64" where
  "KKP_max_index cfg =
     KKP_min_index cfg + to_u64 (SQ_NB cfg) * to_u64 (SQ_NB cfg) * to_u64 (fe_end cfg)"

definition KKP_is_ok :: "config \<Rightarrow> u64 \<Rightarrow> bool" where
  "KKP_is_ok cfg index \<longleftrightarrow> KKP_min_index cfg \<le> index \<and> index < KKP_max_index cfg"

definition KKP_fromIndex :: "config \<Rightarrow> u64 \<Rightarrow> KKP option" where
  "KKP_fromIndex cfg index0 =
     (let index1 = index0 - KKP_min_index cfg;
          piece = of_u64 (index1 mod to_u64 (fe_end cfg));
          index2 = index1 div to_u64 (fe_end cfg);
          king1 = of_u64 (index2 mod to_u64 (SQ_NB cfg));
          index3 = index2 div to_u64 (SQ_NB cfg);
          king0 = of_u64 index3
      in if assert_lv3 cfg \<and> \<not> king0 <s SQ_NB cfg then None
         else Some \<lparr>kkp_king0 = king0, kkp_king1 = king1, kkp_piece = piece\<rparr>)"

definition KKP_toLowerDimensions :: "config \<Rightarrow> KKP \<Rightarrow> KKP list option" where
  "KKP_toLowerDimensions cfg kkp =
     (case mir_piece_at cfg (kkp_piece kkp) of
        None \<Rightarrow> None
      | Some mp \<Rightarrow>
          Some [\<lparr>kkp_king0 = kkp_king0 kkp, kkp_king1 = kkp_king1 kkp, kkp_piece = kkp_piece kkp\<rparr>,
                \<lparr>kkp_king0 = Mir cfg (kkp_king0 kkp), kkp_king1 = Mir cfg (kkp_king1 kkp),
                 kkp_piece = mp\<rparr>])"

definition KKP_toIndex :: "config \<Rightarrow> KKP \<Rightarrow> u64" where
  "KKP_toIndex cfg kkp =
     KKP_min_index cfg
       + (to_u64 (kkp_king0 kkp) * to_u64 (SQ_NB cfg) + to_u64 (kkp_king1 kkp))
           * to_u64 (fe_end cfg)
       + to_u64 (kkp_piece kkp)"

section \<open>struct KPP\<close>

record KPP =
  kpp_king :: Square
  kpp_piece0 :: BonaPiece
  kpp_piece1 :: BonaPiece

definition KPP_min_index :: "config \<Rightarrow> u64" where
  "KPP_min_index cfg = KKP_max_index cfg"

definition KPP_max_index :: "config \<Rightarrow> u64" where
  "KPP_max_index cfg =
     KPP_min_index cfg + to_u64 (SQ_NB cfg) * to_u64 (fe_end cfg) * to_u64 (fe_end cfg)"

definition KPP_is_ok :: "config \<Rightarrow> u64 \<Rightarrow> bool" where
  "KPP_is_ok cfg index \<longleftrightarrow> KPP_min_index cfg \<le> index \<and> index < KPP_max_index cfg"

definition KPP_fromIndex :: "config \<Rightarrow> u64 \<Rightarrow> KPP option" where
  "KPP_fromIndex cfg index0 =
     (let index1 = index0 - KPP_min_index cfg;
          piece1 = of_u64 (index1 mod to_u64 (fe_end cfg));
          index2 = index1 div to_u64 (fe_end cfg);
          piece0 = of_u64 (index2 mod to_u64 (fe_end cfg));
          index3 = index2 div to_u64 (fe_end cfg);
          king = of_u64 index3
      in if assert_lv3 cfg \<and> \<not> king <s SQ_NB cfg then None
         else Some \<lparr>kpp_king = king, kpp_piece0 = piece0, kpp_piece1 = piece1\<rparr>)"

definition KPP_toLowerDimensions :: "config \<Rightarrow> KPP \<Rightarrow> KPP list option" where
  "KPP_toLowerDimensions cfg kpp =
     (case (mir_piece_at cfg (kpp_piece0 kpp), mir_piece_at cfg (kpp_piece1 kpp)) of
        (Some m0, Some m1) \<Rightarrow>
          Some [\<lparr>kpp_king = kpp_king kpp, kpp_piece0 = kpp_piece0 kpp, kpp_piece1 = kpp_piece1 kpp\<rparr>,
                \<lparr>kpp_king = kpp_king kpp, kpp_piece0 = kpp_piece1 kpp, kpp_piece1 = kpp_piece0 kpp\<rparr>,
                \<lparr>kpp_king = Mir cfg (kpp_king kpp), kpp_piece0 = m0, kpp_piece1 = m1\<rparr>,
                \<lparr>kpp_king = Mir cfg (kpp_king kpp), kpp_piece0 = m1, kpp_piece1 = m0\<rparr>]
      | _ \<Rightarrow> None)"

definition KPP_toIndex :: "config \<Rightarrow> KPP \<Rightarrow> u64" where
  "KPP_toIndex cfg kpp =
     KPP_min_index cfg
       + (to_u64 (kpp_king kpp) * to_u64 (fe_end cfg) + to_u64 (kpp_piece0 kpp))
           * to_u64 (fe_end cfg)
       + to_u64 (kpp_piece1 kpp)"

section \<open>Well-formed configurations and valid tuples\<close>

text \<open>
  A configuration is well formed when \<open>SQ_NB\<close> and \<open>fe_end\<close> are positive, the three
  extents together fit 64 bits, so that no bound wraps around, and the table \<open>mir_piece\<close>
  has its declared size \<open>fe_end\<close>.
\<close>

definition total_size :: "config \<Rightarrow> nat" where
  "total_size cfg =
     unat (SQ_NB cfg) * unat (SQ_NB cfg)
     + unat (SQ_NB cfg) * unat (SQ_NB cfg) * unat (fe_end cfg)
     + unat (SQ_NB cfg) * unat (fe_end cfg) * unat (fe_end cfg)"

definition config_ok :: "config \<Rightarrow> bool" where
  "config_ok cfg \<longleftrightarrow>
     0 <s SQ_NB cfg \<and> 0 <s fe_end cfg \<and> total_size cfg < 2 ^ 64
     \<and> length (mir_piece cfg) = unat (fe_end cfg)"

definition sq_ok :: "config \<Rightarrow> Square \<Rightarrow> bool" where
  "sq_ok cfg sq \<longleftrightarrow> 0 \<le>s sq \<and> sq <s SQ_NB cfg"

definition piece_ok :: "config \<Rightarrow> BonaPiece \<Rightarrow> bool" where
  "piece_ok cfg p \<longleftrightarrow> 0 \<le>s p \<and> p <s fe_end cfg"

definition KK_valid :: "config \<Rightarrow> KK \<Rightarrow> bool" where
  "KK_valid cfg kk \<longleftrightarrow> sq_ok cfg (kk_king0 kk) \<and> sq_ok cfg (kk_king1 kk)"

definition KKP_valid :: "config \<Rightarrow> KKP \<Rightarrow> bool" where
  "KKP_valid cfg kkp \<longleftrightarrow>
     sq_ok cfg (kkp_king0 kkp) \<and> sq_ok cfg (kkp_king1 kkp) \<and> piece_ok cfg (kkp_piece kkp)"

definition KPP_valid :: "config \<Rightarrow> KPP \<Rightarrow> bool" where
  "KPP_valid cfg kpp \<longleftrightarrow>
     sq_ok cfg (kpp_king kpp) \<and> piece_ok cfg (kpp_piece0 kpp) \<and> piece_ok cfg (kpp_piece1 kpp)"

text \<open>
  The symmetry tables keep squares and piece codes in range: \<open>Mir\<close> maps every square to a
  square and every entry of \<open>mir_piece\<close> is a piece code.
\<close>

definition tables_ok :: "config \<Rightarrow> bool" where
  "tables_ok cfg \<longleftrightarrow>
     (\<forall>sq. sq_ok cfg sq \<longrightarrow> sq_ok cfg (Mir cfg sq))
     \<and> (\<forall>m \<in> set (mir_piece cfg). piece_ok cfg m)"

section \<open>An example configuration\<close>

text \<open>
  Modelled from the spec: the sizes of the spec's concrete scenario, \<open>SQ_NB = 81\<close> and
  \<open>fe_end = 1548\<close>, on a board of 9 files of 9 squares each (square = file * 9 + rank),
  where mirroring left-right reflects the file. The piece table of the example is the
  involution that reverses the piece codes. The build is a release build (no
  \<open>ASSERT_LV3\<close>).
\<close>

definition Mir81 :: "Square \<Rightarrow> Square" where
  "Mir81 sq = (8 - sq div 9) * 9 + sq mod 9"

definition example_cfg :: config where
  "example_cfg =
     \<lparr>SQ_NB = 81, fe_end = 1548, Mir = Mir81,
      mir_piece = map (\<lambda>n. word_of_nat (1547 - n)) [0..<1548], assert_lv3 = False\<rparr>"

section \<open>Floating-point values\<close>

text \<open>
  Modelled from the spec: \<open>LearnFloatType\<close> is declared outside the header; the spec calls
  the gradient accumulators floats. The values of \<open>LearnFloatType\<close> and \<open>double\<close> are
  finite numbers, the negative zero, the infinities and NaN. Every finite floating-point
  number is a \<open>Num\<close>; a statement about all \<open>fp\<close> values covers all floating-point
  numbers.
\<close>

datatype fp = Num real | NegZero | PInf | NInf | NaN

fun fp_fin :: "fp \<Rightarrow> real" where
  "fp_fin (Num r) = r"
| "fp_fin _ = 0"

text \<open>The comparisons \<open><\<close> and \<open>==\<close>: false as soon as one side is NaN; the zeros are equal.\<close>

fun fp_lt :: "fp \<Rightarrow> fp \<Rightarrow> bool" where
  "fp_lt NaN _ = False"
| "fp_lt _ NaN = False"
| "fp_lt PInf _ = False"
| "fp_lt _ PInf = True"
| "fp_lt _ NInf = False"
| "fp_lt NInf _ = True"
| "fp_lt a b = (fp_fin a < fp_fin b)"

fun fp_eq :: "fp \<Rightarrow> fp \<Rightarrow> bool" where
  "fp_eq NaN _ = False"
| "fp_eq _ NaN = False"
| "fp_eq PInf b = (b = PInf)"
| "fp_eq a PInf = False"
| "fp_eq NInf b = (b = NInf)"
| "fp_eq a NInf = False"
| "fp_eq a b = (fp_fin a = fp_fin b)"

text \<open>
  The unqualified \<open>min\<close> and \<open>max\<close> of the header are \<open>std::min\<close> and \<open>std::max\<close> (the
  header relies on the names of \<open>std\<close> being visible, as its unqualified \<open>array\<close> shows):
  \<open>std::min(a, b)\<close> is \<open>(b < a) ? b : a\<close>, \<open>std::max(a, b)\<close> is \<open>(a < b) ? b : a\<close>.
\<close>

definition fp_min :: "fp \<Rightarrow> fp \<Rightarrow> fp" where
  "fp_min a b = (if fp_lt b a then b else a)"

definition fp_max :: "fp \<Rightarrow> fp \<Rightarrow> fp" where
  "fp_max a b = (if fp_lt a b then b else a)"

text \<open>\<open>round\<close>: to the nearest integer, halfway cases away from zero.\<close>

definition round_away :: "real \<Rightarrow> int" where
  "round_away r = (if 0 \<le> r then \<lfloor>r + 1 / 2\<rfloor> else \<lceil>r - 1 / 2\<rceil>)"

fun fp_round :: "fp \<Rightarrow> fp" where
  "fp_round (Num r) = Num (of_int (round_away r))"
| "fp_round x = x"

text \<open>
  Conversion of a floating-point value to a signed integer type: the fraction is dropped
  (truncation towards zero); when the result does not fit the type, and for infinities and
  NaN, the behaviour is undefined (\<open>None\<close>).
\<close>

definition trunc_real :: "real \<Rightarrow> int" where
  "trunc_real r = (if 0 \<le> r then \<lfloor>r\<rfloor> else \<lceil>r\<rceil>)"

definition fp_to_word :: "fp \<Rightarrow> 'a::len word option" where
  "fp_to_word x =
     (case x of
        Num r \<Rightarrow>
          (let k = trunc_real r
           in if - (2 ^ (LENGTH('a) - 1)) \<le> k \<and> k < 2 ^ (LENGTH('a) - 1)
              then Some (word_of_int k) else None)
      | NegZero \<Rightarrow> Some 0
      | _ \<Rightarrow> None)"

text \<open>Conversion of a signed integer of at most 32 bits to \<open>double\<close>: exact.\<close>

definition fp_of_word :: "'a::len word \<Rightarrow> fp" where
  "fp_of_word w = Num (of_int (sint w))"

text \<open>
  The arithmetic of the floating-point unit (rounded addition, multiplication, division
  and square root in \<open>LearnFloatType\<close> and in \<open>double\<close>) is a parameter: what is proved for
  all \<open>fpu\<close> holds for the arithmetic of the machine.
\<close>

record fpu =
  f_add :: "fp \<Rightarrow> fp \<Rightarrow> fp"
  f_mul :: "fp \<Rightarrow> fp \<Rightarrow> fp"
  d_add :: "fp \<Rightarrow> fp \<Rightarrow> fp"
  d_sub :: "fp \<Rightarrow> fp \<Rightarrow> fp"
  d_mul :: "fp \<Rightarrow> fp \<Rightarrow> fp"
  d_div :: "fp \<Rightarrow> fp \<Rightarrow> fp"
  d_sqrt :: "fp \<Rightarrow> fp"

text \<open>
  Arithmetic without rounding error on finite values, to evaluate examples; an operation
  with a non-finite operand, a division by zero and the root of a negative number give NaN
  here.
\<close>

definition lift2 :: "(real \<Rightarrow> real \<Rightarrow> real) \<Rightarrow> fp \<Rightarrow> fp \<Rightarrow> fp" where
  "lift2 f a b =
     (if a \<in> {PInf, NInf, NaN} \<or> b \<in> {PInf, NInf, NaN} then NaN
      else Num (f (fp_fin a) (fp_fin b)))"

definition exact_fpu :: fpu where
  "exact_fpu =
     \<lparr>f_add = lift2 (+), f_mul = lift2 (*),
      d_add = lift2 (+), d_sub = lift2 (-), d_mul = lift2 (*),
      d_div = (\<lambda>a b. if fp_fin b = 0 then NaN else lift2 (/) a b),
      d_sqrt = (\<lambda>a. if a \<in> {PInf, NInf, NaN} \<or> fp_fin a < 0 then NaN else Num (sqrt (fp_fin a)))\<rparr>"

section \<open>std::array of two elements\<close>

type_synonym 'a array2 = "'a \<times> 'a"

definition at2 :: "'a array2 \<Rightarrow> nat \<Rightarrow> 'a" where
  "at2 a i = (if i = 0 then fst a else snd a)"

definition upd2 :: "'a array2 \<Rightarrow> nat \<Rightarrow> 'a \<Rightarrow> 'a array2" where
  "upd2 a i x = (if i = 0 then (x, snd a) else (fst a, x))"

section \<open>struct Weight, ADA\_GRAD\_UPDATE\<close>

record Weight =
  weight_g :: "fp array2"
  weight_g2 :: "fp array2"
  weight_v8 :: "8 word array2"

definition epsilon :: fp where
  "epsilon = Num (1 / 1000000)"

text \<open>\<open>(double)INT16_MAX * 3 / 4\<close> and \<open>(double)INT16_MIN * 3 / 4\<close>.\<close>

definition clamp_hi :: fp where
  "clamp_hi = Num (32767 * 3 / 4)"

definition clamp_lo :: fp where
  "clamp_lo = Num (- 32768 * 3 / 4)"

text \<open>The value \<open>V\<close> before the clamp (the lines computing \<open>V\<close> from \<open>v[i]\<close>, \<open>v8[i]\<close>, \<open>eta\<close>, \<open>g[i]\<close>, \<open>g2[i]\<close>).\<close>

definition adagrad_V :: "fpu \<Rightarrow> fp \<Rightarrow> fp \<Rightarrow> fp \<Rightarrow> 8 word \<Rightarrow> 't::len word \<Rightarrow> fp" where
  "adagrad_V ops eta gi g2i v8i vi =
     (let V = d_add ops (fp_of_word vi) (d_div ops (fp_of_word v8i) (Num 127))
      in d_sub ops V (d_div ops (d_mul ops eta gi) (d_sqrt ops (d_add ops g2i epsilon))))"

definition clamp_V :: "fp \<Rightarrow> fp" where
  "clamp_V V = fp_max clamp_lo (fp_min clamp_hi V)"

text \<open>One iteration of the loop of \<open>updateFV\<close>, for channel \<open>i\<close>; \<open>eta\<close> is the static member.\<close>

definition adagrad_step ::
  "fpu \<Rightarrow> fp \<Rightarrow> nat \<Rightarrow> Weight \<times> 't::len word array2 \<Rightarrow> (Weight \<times> 't word array2) option" where
  "adagrad_step ops eta i st =
     (case st of (w, v) \<Rightarrow>
        if fp_eq (at2 (weight_g w) i) (Num 0) then Some (w, v)
        else
          let g2i = f_add ops (at2 (weight_g2 w) i)
                      (f_mul ops (at2 (weight_g w) i) (at2 (weight_g w) i));
              w1 = w\<lparr>weight_g2 := upd2 (weight_g2 w) i g2i\<rparr>;
              V = adagrad_V ops eta (at2 (weight_g w1) i) (at2 (weight_g2 w1) i)
                    (at2 (weight_v8 w1) i) (at2 v i);
              V = clamp_V V
          in case fp_to_word (fp_round V) of
               None \<Rightarrow> None
             | Some vi \<Rightarrow>
                 (case fp_to_word (d_mul ops (d_sub ops V (fp_of_word vi)) (Num 127)) of
                    None \<Rightarrow> None
                  | Some c \<Rightarrow> Some (w1\<lparr>weight_v8 := upd2 (weight_v8 w1) i c\<rparr>, upd2 v i vi)))"

text \<open>\<open>updateFV\<close>: the loop \<open>for (int i = 0; i < 2; ++i)\<close>, iteration 0 and then iteration 1.\<close>

definition updateFV_adagrad ::
  "fpu \<Rightarrow> fp \<Rightarrow> Weight \<Rightarrow> 't::len word array2 \<Rightarrow> (Weight \<times> 't word array2) option" where
  "updateFV_adagrad ops eta w v =
     Option.bind (adagrad_step ops eta 0 (w, v)) (adagrad_step ops eta 1)"

section \<open>struct Weight, SGD\_UPDATE\<close>



text \<open>\<open>std::min\<close> and \<open>std::max\<close> on \<open>s16\<close>.\<close>

definition s16_min :: "16 word \<Rightarrow> 16 word \<Rightarrow> 16 word" where
  "s16_min a b = (if b <s a then b else a)"

definition s16_max :: "16 word \<Rightarrow> 16 word \<Rightarrow> 16 word" where
  "s16_max a b = (if a <s b then b else a)"

text \<open>\<open>V--\<close> when the gradient is positive, \<open>V++\<close> otherwise (wrapping in \<open>T\<close>).\<close>

definition sgd_delta :: "fp \<Rightarrow> 't::len word \<Rightarrow> 't word" where
  "sgd_delta gi vi = (if fp_lt (Num 0) gi then vi - 1 else vi + 1)"

text \<open>
  The clamp in \<open>s16\<close>: \<open>(s16)((double)INT16_MAX * 3 / 4)\<close> is 24575 and
  \<open>(s16)((double)INT16_MIN * 3 / 4)\<close> is -24576; each result is stored back into \<open>V\<close>, of
  type \<open>T\<close>.
\<close>

definition sgd_clamp :: "'t::len word \<Rightarrow> 't word" where
  "sgd_clamp V0 =
     (let V1 = (scast (s16_min 24575 (scast V0)) :: 't word);
          V2 = (scast (s16_max (- 24576) (scast V1)) :: 't word)
      in V2)"




section \<open>Conversions between the index type and the enumerations\<close>

lemma nonneg_uint_sint:
  assumes "0 \<le>s (x::32 word)"
  shows "uint x = sint x" and "sint x < 2 ^ 31" and "0 \<le> sint x"
proof -
  from assms show s: "0 \<le> sint x" by (simp add: word_sle_eq)
  show l: "sint x < 2 ^ 31" using sint_lt [of x] by simp
  have "uint x = take_bit 32 (sint x)" using uint_sint [of x] by simp
  also have "\<dots> = sint x" using s l by (simp add: take_bit_int_eq_self)
  finally show "uint x = sint x" .
qed

lemma to_u64_nonneg:
  assumes "0 \<le>s (x::32 word)"
  shows "unat (to_u64 x) = unat x" and "unat x < 2 ^ 31"
proof -
  note f = nonneg_uint_sint [OF assms]
  show "unat x < 2 ^ 31" using f by (simp add: unat_eq_nat_uint)
  have "uint (to_u64 x) = uint (word_of_int (sint x) :: 64 word)"
    unfolding to_u64_def scast_eq ..
  also have "\<dots> = take_bit LENGTH(64) (sint x)" by (rule uint_word_of_int_eq)
  also have "\<dots> = take_bit 64 (sint x)" by simp
  also have "\<dots> = sint x" using f by (simp add: take_bit_int_eq_self)
  finally show "unat (to_u64 x) = unat x" using f by (simp add: unat_eq_nat_uint)
qed

lemma of_u64_to_u64: "of_u64 (to_u64 x) = x"
  unfolding of_u64_def to_u64_def
  by (rule bit_word_eqI) (simp add: bit_simps) 

lemma of_u64_small:
  assumes "unat (i::u64) < 2 ^ 31"
  shows "0 \<le>s of_u64 i" and "unat (of_u64 i) = unat i" and "to_u64 (of_u64 i) = i"
proof -
  have u: "unat (of_u64 i) = take_bit 32 (unat i)"
    by (simp add: of_u64_def unsigned_ucast_eq)
  also have "\<dots> = unat i" using assms by (simp add: take_bit_nat_eq_self)
  finally show e: "unat (of_u64 i) = unat i" .
  have "int (unat i) < int (2 ^ 31)" using assms by (simp only: of_nat_less_iff)
  then have b: "int (unat i) < 2 ^ 31" by simp
  have "sint (of_u64 i) = signed_take_bit 31 (uint (of_u64 i))"
    using sint_uint [of "of_u64 i"] by simp
  also have "uint (of_u64 i) = int (unat i)" by (simp only: uint_nat e)
  also have "signed_take_bit 31 (int (unat i)) = int (unat i)"
    by (rule signed_take_bit_int_eq_self) (use b in linarith)+
  finally have s: "sint (of_u64 i) = int (unat i)" .
  then show nn: "0 \<le>s of_u64 i" by (simp add: word_sle_eq)
  have "unat (to_u64 (of_u64 i)) = unat i" using to_u64_nonneg(1) [OF nn] e by simp
  then show "to_u64 (of_u64 i) = i" by (simp add: word_unat_eq_iff)
qed

lemma sless_nat:
  assumes "0 \<le>s (x::32 word)" "0 \<le>s y"
  shows "x <s y \<longleftrightarrow> unat x < unat y"
  using nonneg_uint_sint [OF assms(1)] nonneg_uint_sint [OF assms(2)]
  by (auto simp add: word_sless_alt unat_eq_nat_uint)

section \<open>Mixed-radix arithmetic on 64-bit words\<close>

lemma unat_mul_add:
  fixes x y z :: u64
  assumes "unat x * unat y + unat z < 2 ^ 64"
  shows "unat (x * y + z) = unat x * unat y + unat z"
proof -
  have m: "unat (x * y) = unat x * unat y"
    using assms by (intro unat_mult_lem [THEN iffD1]) simp
  have "unat (x * y) + unat z < 2 ^ LENGTH(64)" using assms m by simp
  then have "unat (x * y + z) = unat (x * y) + unat z" by (rule unat_add_lem [THEN iffD1])
  with m show ?thesis by simp
qed

lemma radix_step:
  fixes x y r :: u64
  assumes "unat x * unat r + unat y < 2 ^ 64" and "unat y < unat r"
  shows "(x * r + y) mod r = y" and "(x * r + y) div r = x"
proof -
  note u = unat_mul_add [OF assms(1)]
  have "unat ((x * r + y) mod r) = unat y"
    using assms(2) by (simp add: unat_mod u)
  then show "(x * r + y) mod r = y" by (simp add: word_unat_eq_iff)
  have "unat ((x * r + y) div r) = unat x"
    using assms(2) by (simp add: unat_div u)
  then show "(x * r + y) div r = x" by (simp add: word_unat_eq_iff)
qed

lemma config_ok_unat:
  assumes "config_ok cfg"
  shows "unat (to_u64 (SQ_NB cfg)) = unat (SQ_NB cfg)"
    and "unat (to_u64 (fe_end cfg)) = unat (fe_end cfg)"
    and "0 < unat (SQ_NB cfg)" and "0 < unat (fe_end cfg)"
    and "unat (SQ_NB cfg) < 2 ^ 31" and "unat (fe_end cfg) < 2 ^ 31"
    and "0 \<le>s SQ_NB cfg" and "0 \<le>s fe_end cfg"
proof -
  from assms have p: "0 <s SQ_NB cfg" "0 <s fe_end cfg" by (simp_all add: config_ok_def)
  then show nn: "0 \<le>s SQ_NB cfg" "0 \<le>s fe_end cfg" by (simp_all add: word_sle_eq word_sless_alt)
  show "unat (to_u64 (SQ_NB cfg)) = unat (SQ_NB cfg)" "unat (SQ_NB cfg) < 2 ^ 31"
    by (rule to_u64_nonneg [OF nn(1)])+
  show "unat (to_u64 (fe_end cfg)) = unat (fe_end cfg)" "unat (fe_end cfg) < 2 ^ 31"
    by (rule to_u64_nonneg [OF nn(2)])+
  have "SQ_NB cfg \<noteq> 0" "fe_end cfg \<noteq> 0" using p by auto
  then show "0 < unat (SQ_NB cfg)" "0 < unat (fe_end cfg)" by (simp_all add: unat_gt_0)
qed

lemma sq_ok_unat:
  assumes "config_ok cfg" "sq_ok cfg s"
  shows "unat (to_u64 s) = unat s" and "unat s < unat (SQ_NB cfg)" and "0 \<le>s s"
proof -
  from assms(2) show nn: "0 \<le>s s" by (simp add: sq_ok_def)
  show "unat (to_u64 s) = unat s" by (rule to_u64_nonneg [OF nn])
  show "unat s < unat (SQ_NB cfg)"
    using assms(2) sless_nat [OF nn config_ok_unat(7) [OF assms(1)]] by (simp add: sq_ok_def)
qed

lemma piece_ok_unat:
  assumes "config_ok cfg" "piece_ok cfg p"
  shows "unat (to_u64 p) = unat p" and "unat p < unat (fe_end cfg)" and "0 \<le>s p"
proof -
  from assms(2) show nn: "0 \<le>s p" by (simp add: piece_ok_def)
  show "unat (to_u64 p) = unat p" by (rule to_u64_nonneg [OF nn])
  show "unat p < unat (fe_end cfg)"
    using assms(2) sless_nat [OF nn config_ok_unat(8) [OF assms(1)]] by (simp add: piece_ok_def)
qed

text \<open>nat-level bounds of mixed radix numbers\<close>

lemma radix2_bound:
  fixes a b S :: nat
  assumes "a < S" "b < T"
  shows "a * T + b < S * T"
proof -
  have "a * T + b < a * T + T" using assms by simp
  also have "\<dots> = (a + 1) * T" by simp
  also have "\<dots> \<le> S * T" using assms by (intro mult_le_mono1) simp
  finally show ?thesis .
qed

section \<open>Extents and bounds of the three ranges\<close>

lemma extents_unat:
  assumes "config_ok cfg"
  shows "unat (to_u64 (SQ_NB cfg) * to_u64 (SQ_NB cfg)) = unat (SQ_NB cfg) * unat (SQ_NB cfg)"
    and "unat (to_u64 (SQ_NB cfg) * to_u64 (SQ_NB cfg) * to_u64 (fe_end cfg))
           = unat (SQ_NB cfg) * unat (SQ_NB cfg) * unat (fe_end cfg)"
    and "unat (to_u64 (SQ_NB cfg) * to_u64 (fe_end cfg) * to_u64 (fe_end cfg))
           = unat (SQ_NB cfg) * unat (fe_end cfg) * unat (fe_end cfg)"
proof -
  note c = config_ok_unat [OF assms]
  from assms have t: "total_size cfg < 2 ^ 64" by (simp add: config_ok_def)
  have b1: "unat (SQ_NB cfg) * unat (SQ_NB cfg) < 2 ^ 64"
    and b2: "unat (SQ_NB cfg) * unat (SQ_NB cfg) * unat (fe_end cfg) < 2 ^ 64"
    and b3: "unat (SQ_NB cfg) * unat (fe_end cfg) * unat (fe_end cfg) < 2 ^ 64"
    using t by (simp_all add: total_size_def)
  show e1: "unat (to_u64 (SQ_NB cfg) * to_u64 (SQ_NB cfg)) = unat (SQ_NB cfg) * unat (SQ_NB cfg)"
    using b1 c(1) by (intro unat_mult_lem [THEN iffD1, THEN trans]) simp_all
  show "unat (to_u64 (SQ_NB cfg) * to_u64 (SQ_NB cfg) * to_u64 (fe_end cfg))
           = unat (SQ_NB cfg) * unat (SQ_NB cfg) * unat (fe_end cfg)"
    using b2 c(2) e1 by (intro unat_mult_lem [THEN iffD1, THEN trans]) simp_all
  have e3: "unat (to_u64 (SQ_NB cfg) * to_u64 (fe_end cfg)) = unat (SQ_NB cfg) * unat (fe_end cfg)"
  proof -
    have "unat (SQ_NB cfg) * unat (fe_end cfg) \<le> unat (SQ_NB cfg) * unat (fe_end cfg) * unat (fe_end cfg)"
      using c(4) by (cases "unat (fe_end cfg)") simp_all
    then have "unat (SQ_NB cfg) * unat (fe_end cfg) < 2 ^ 64" using b3 by (rule le_less_trans)
    then show ?thesis using c(1,2) by (intro unat_mult_lem [THEN iffD1, THEN trans]) simp_all
  qed
  show "unat (to_u64 (SQ_NB cfg) * to_u64 (fe_end cfg) * to_u64 (fe_end cfg))
           = unat (SQ_NB cfg) * unat (fe_end cfg) * unat (fe_end cfg)"
    using b3 c(2) e3 by (intro unat_mult_lem [THEN iffD1, THEN trans]) simp_all
qed

lemma bounds_unat:
  assumes "config_ok cfg"
  shows "unat (KK_max_index cfg) = unat (SQ_NB cfg) * unat (SQ_NB cfg)"
    and "unat (KKP_max_index cfg)
           = unat (SQ_NB cfg) * unat (SQ_NB cfg)
             + unat (SQ_NB cfg) * unat (SQ_NB cfg) * unat (fe_end cfg)"
    and "unat (KPP_max_index cfg) = total_size cfg"
proof -
  note e = extents_unat [OF assms]
  from assms have t: "total_size cfg < 2 ^ 64" by (simp add: config_ok_def)
  show k: "unat (KK_max_index cfg) = unat (SQ_NB cfg) * unat (SQ_NB cfg)"
    by (simp add: KK_max_index_def KK_min_index_def e)
  have "unat (KK_max_index cfg) + unat (to_u64 (SQ_NB cfg) * to_u64 (SQ_NB cfg) * to_u64 (fe_end cfg))
          < 2 ^ LENGTH(64)"
    using t by (simp add: k e total_size_def)
  from unat_add_lem [THEN iffD1, OF this]
  show kp: "unat (KKP_max_index cfg)
           = unat (SQ_NB cfg) * unat (SQ_NB cfg)
             + unat (SQ_NB cfg) * unat (SQ_NB cfg) * unat (fe_end cfg)"
    by (simp add: KKP_max_index_def KKP_min_index_def k e)
  have "unat (KKP_max_index cfg) + unat (to_u64 (SQ_NB cfg) * to_u64 (fe_end cfg) * to_u64 (fe_end cfg))
          < 2 ^ LENGTH(64)"
    using t by (simp add: kp e total_size_def)
  from unat_add_lem [THEN iffD1, OF this]
  show "unat (KPP_max_index cfg) = total_size cfg"
    by (simp add: KPP_max_index_def KPP_min_index_def kp e total_size_def)
qed

text \<open>An index inside a range lies below the extent once the lower bound is subtracted.\<close>

lemma in_range_offset:
  fixes i lo e :: u64
  assumes "lo \<le> i" "i < lo + e" "unat lo + unat e < 2 ^ 64"
  shows "unat (i - lo) < unat e"
proof -
  have "unat (lo + e) = unat lo + unat e"
    using assms(3) by (intro unat_add_lem [THEN iffD1]) simp
  moreover have "unat i < unat (lo + e)" using assms(2) by (simp add: word_less_nat_alt)
  moreover have "unat (i - lo) = unat i - unat lo" using assms(1) by (simp add: unat_sub)
  moreover have "unat lo \<le> unat i" using assms(1) by (simp add: word_le_nat_alt)
  ultimately show ?thesis by linarith
qed

lemma offset_in_range:
  fixes lo e t :: u64
  assumes "unat t < unat e" "unat lo + unat e < 2 ^ 64"
  shows "lo \<le> lo + t" and "lo + t < lo + e"
proof -
  have a: "unat (lo + e) = unat lo + unat e"
    using assms(2) by (intro unat_add_lem [THEN iffD1]) simp
  have b: "unat (lo + t) = unat lo + unat t"
    using assms by (intro unat_add_lem [THEN iffD1]) simp
  show "lo \<le> lo + t" by (simp add: word_le_nat_alt b)
  show "lo + t < lo + e" using assms(1) by (simp add: word_less_nat_alt a b)
qed

section \<open>Encoding and decoding\<close>

lemma mod_small:
  assumes "config_ok cfg"
  shows "unat ((w::u64) mod to_u64 (SQ_NB cfg)) < 2 ^ 31"
    and "unat ((w::u64) mod to_u64 (fe_end cfg)) < 2 ^ 31"
    and "unat ((w::u64) mod to_u64 (SQ_NB cfg)) < unat (SQ_NB cfg)"
    and "unat ((w::u64) mod to_u64 (fe_end cfg)) < unat (fe_end cfg)"
proof -
  note c = config_ok_unat [OF assms]
  show a: "unat (w mod to_u64 (SQ_NB cfg)) < unat (SQ_NB cfg)"
    using c(3) by (simp add: unat_mod c(1))
  show b: "unat (w mod to_u64 (fe_end cfg)) < unat (fe_end cfg)"
    using c(4) by (simp add: unat_mod c(2))
  from a c(5) show "unat (w mod to_u64 (SQ_NB cfg)) < 2 ^ 31" by (rule less_trans)
  from b c(6) show "unat (w mod to_u64 (fe_end cfg)) < 2 ^ 31" by (rule less_trans)
qed

lemma KK_decode_encode:
  assumes ok: "config_ok cfg" and v: "KK_valid cfg kk"
  shows "KK_fromIndex cfg (KK_toIndex cfg kk) = Some kk"
proof -
  note c = config_ok_unat [OF ok]
  from v have s0: "sq_ok cfg (kk_king0 kk)" and s1: "sq_ok cfg (kk_king1 kk)"
    by (simp_all add: KK_valid_def)
  note u0 = sq_ok_unat [OF ok s0] and u1 = sq_ok_unat [OF ok s1]
  define x r y where "x = to_u64 (kk_king0 kk)" and "r = to_u64 (SQ_NB cfg)"
    and "y = to_u64 (kk_king1 kk)"
  have ux: "unat x = unat (kk_king0 kk)" and ur: "unat r = unat (SQ_NB cfg)"
    and uy: "unat y = unat (kk_king1 kk)"
    by (simp_all add: x_def r_def y_def u0 u1 c)
  have "unat x * unat r + unat y < unat (SQ_NB cfg) * unat (SQ_NB cfg)"
    unfolding ux ur uy using u0(2) u1(2) by (rule radix2_bound)
  also have "\<dots> < 2 ^ 64" using ok by (simp add: config_ok_def total_size_def)
  finally have b: "unat x * unat r + unat y < 2 ^ 64" .
  have yr: "unat y < unat r" using u1(2) by (simp add: uy ur)
  note st = radix_step [OF b yr]
  have lt: "kk_king0 kk <s SQ_NB cfg" using s0 by (simp add: sq_ok_def)
  have "KK_fromIndex cfg (x * r + y)
          = Some \<lparr>kk_king0 = of_u64 x, kk_king1 = of_u64 y\<rparr>"
    using lt by (simp add: KK_fromIndex_def KK_min_index_def Let_def st
        flip: r_def) (simp add: x_def of_u64_to_u64)
  then show ?thesis
    by (simp add: KK_toIndex_def KK_min_index_def x_def y_def r_def of_u64_to_u64)
qed

lemma KK_encode_decode:
  assumes ok: "config_ok cfg"
    and q: "unat ((i - KK_min_index cfg) div to_u64 (SQ_NB cfg)) < 2 ^ 31"
    and d: "KK_fromIndex cfg i = Some kk"
  shows "KK_toIndex cfg kk = i"
proof -
  define j where "j = i - KK_min_index cfg"
  define r where "r = to_u64 (SQ_NB cfg)"
  from d have kk: "kk = \<lparr>kk_king0 = of_u64 (j div r), kk_king1 = of_u64 (j mod r)\<rparr>"
    by (auto simp add: KK_fromIndex_def Let_def j_def r_def split: if_splits)
  have a: "to_u64 (of_u64 (j div r)) = j div r"
    using q by (intro of_u64_small(3)) (simp add: j_def r_def)
  have b: "to_u64 (of_u64 (j mod r)) = j mod r"
    unfolding r_def by (intro of_u64_small(3) mod_small(1) ok)
  have "KK_toIndex cfg kk = KK_min_index cfg + (j div r * r + j mod r)"
    by (simp add: KK_toIndex_def kk a b flip: r_def)
  also have "j div r * r + j mod r = j" by (rule div_mult_mod_eq)
  finally show ?thesis by (simp add: j_def)
qed

lemma KKP_decode_encode:
  assumes ok: "config_ok cfg" and v: "KKP_valid cfg kkp"
  shows "KKP_fromIndex cfg (KKP_toIndex cfg kkp) = Some kkp"
proof -
  note c = config_ok_unat [OF ok]
  from v have s0: "sq_ok cfg (kkp_king0 kkp)" and s1: "sq_ok cfg (kkp_king1 kkp)"
    and s2: "piece_ok cfg (kkp_piece kkp)"
    by (simp_all add: KKP_valid_def)
  note u0 = sq_ok_unat [OF ok s0] and u1 = sq_ok_unat [OF ok s1]
    and u2 = piece_ok_unat [OF ok s2]
  define x r y f p where "x = to_u64 (kkp_king0 kkp)" and "r = to_u64 (SQ_NB cfg)"
    and "y = to_u64 (kkp_king1 kkp)" and "f = to_u64 (fe_end cfg)"
    and "p = to_u64 (kkp_piece kkp)"
  have ux: "unat x = unat (kkp_king0 kkp)" and ur: "unat r = unat (SQ_NB cfg)"
    and uy: "unat y = unat (kkp_king1 kkp)" and uf: "unat f = unat (fe_end cfg)"
    and up: "unat p = unat (kkp_piece kkp)"
    by (simp_all add: x_def r_def y_def f_def p_def u0 u1 u2 c)
  have b1: "unat x * unat r + unat y < unat (SQ_NB cfg) * unat (SQ_NB cfg)"
    unfolding ux ur uy using u0(2) u1(2) by (rule radix2_bound)
  also have "\<dots> < 2 ^ 64" using ok by (simp add: config_ok_def total_size_def)
  finally have b: "unat x * unat r + unat y < 2 ^ 64" .
  have um: "unat (x * r + y) = unat x * unat r + unat y" by (rule unat_mul_add [OF b])
  have "unat (x * r + y) * unat f + unat p
          < unat (SQ_NB cfg) * unat (SQ_NB cfg) * unat (fe_end cfg)"
    unfolding uf up using b1 u2(2) unfolding um by (rule radix2_bound)
  also have "\<dots> < 2 ^ 64" using ok by (simp add: config_ok_def total_size_def)
  finally have b': "unat (x * r + y) * unat f + unat p < 2 ^ 64" .
  have yr: "unat y < unat r" using u1(2) by (simp add: uy ur)
  have pf: "unat p < unat f" using u2(2) by (simp add: up uf)
  note st1 = radix_step [OF b' pf] and st2 = radix_step [OF b yr]
  have lt: "kkp_king0 kkp <s SQ_NB cfg" using s0 by (simp add: sq_ok_def)
  have "KKP_fromIndex cfg (KKP_min_index cfg + (x * r + y) * f + p)
          = Some \<lparr>kkp_king0 = of_u64 x, kkp_king1 = of_u64 y, kkp_piece = of_u64 p\<rparr>"
    using lt by (simp add: KKP_fromIndex_def Let_def st1 st2 add.assoc
        flip: r_def f_def) (simp add: x_def of_u64_to_u64)
  then show ?thesis
    by (simp add: KKP_toIndex_def x_def y_def r_def f_def p_def of_u64_to_u64)
qed

lemma KKP_encode_decode:
  assumes ok: "config_ok cfg"
    and q: "unat ((i - KKP_min_index cfg) div to_u64 (fe_end cfg) div to_u64 (SQ_NB cfg)) < 2 ^ 31"
    and d: "KKP_fromIndex cfg i = Some kkp"
  shows "KKP_toIndex cfg kkp = i"
proof -
  define j where "j = i - KKP_min_index cfg"
  define r where "r = to_u64 (SQ_NB cfg)"
  define f where "f = to_u64 (fe_end cfg)"
  from d have kkp: "kkp = \<lparr>kkp_king0 = of_u64 (j div f div r),
      kkp_king1 = of_u64 (j div f mod r), kkp_piece = of_u64 (j mod f)\<rparr>"
    by (auto simp add: KKP_fromIndex_def Let_def j_def r_def f_def split: if_splits)
  have a: "to_u64 (of_u64 (j div f div r)) = j div f div r"
    using q by (intro of_u64_small(3)) (simp add: j_def r_def f_def)
  have b: "to_u64 (of_u64 (j div f mod r)) = j div f mod r"
    unfolding r_def by (intro of_u64_small(3) mod_small(1) ok)
  have c: "to_u64 (of_u64 (j mod f)) = j mod f"
    unfolding f_def by (intro of_u64_small(3) mod_small(2) ok)
  have "KKP_toIndex cfg kkp
          = KKP_min_index cfg + ((j div f div r * r + j div f mod r) * f + j mod f)"
    by (simp add: KKP_toIndex_def kkp a b c add.assoc flip: r_def f_def)
  also have "j div f div r * r + j div f mod r = j div f" by (rule div_mult_mod_eq)
  also have "j div f * f + j mod f = j" by (rule div_mult_mod_eq)
  finally show ?thesis by (simp add: j_def)
qed

lemma KPP_decode_encode:
  assumes ok: "config_ok cfg" and v: "KPP_valid cfg kpp"
  shows "KPP_fromIndex cfg (KPP_toIndex cfg kpp) = Some kpp"
proof -
  note c = config_ok_unat [OF ok]
  from v have s0: "sq_ok cfg (kpp_king kpp)" and s1: "piece_ok cfg (kpp_piece0 kpp)"
    and s2: "piece_ok cfg (kpp_piece1 kpp)"
    by (simp_all add: KPP_valid_def)
  note u0 = sq_ok_unat [OF ok s0] and u1 = piece_ok_unat [OF ok s1]
    and u2 = piece_ok_unat [OF ok s2]
  define x y f p where "x = to_u64 (kpp_king kpp)"
    and "y = to_u64 (kpp_piece0 kpp)" and "f = to_u64 (fe_end cfg)"
    and "p = to_u64 (kpp_piece1 kpp)"
  have ux: "unat x = unat (kpp_king kpp)"
    and uy: "unat y = unat (kpp_piece0 kpp)" and uf: "unat f = unat (fe_end cfg)"
    and up: "unat p = unat (kpp_piece1 kpp)"
    by (simp_all add: x_def y_def f_def p_def u0 u1 u2 c)
  have le: "unat (SQ_NB cfg) * unat (fe_end cfg)
              \<le> unat (SQ_NB cfg) * unat (fe_end cfg) * unat (fe_end cfg)"
    using c(4) by (cases "unat (fe_end cfg)") simp_all
  have b1: "unat x * unat f + unat y < unat (SQ_NB cfg) * unat (fe_end cfg)"
    unfolding ux uf uy using u0(2) u1(2) by (rule radix2_bound)
  also note le
  also have "unat (SQ_NB cfg) * unat (fe_end cfg) * unat (fe_end cfg) < 2 ^ 64"
    using ok by (simp add: config_ok_def total_size_def)
  finally have b: "unat x * unat f + unat y < 2 ^ 64" .
  have um: "unat (x * f + y) = unat x * unat f + unat y" by (rule unat_mul_add [OF b])
  have "unat (x * f + y) * unat f + unat p
          < unat (SQ_NB cfg) * unat (fe_end cfg) * unat (fe_end cfg)"
    unfolding up using b1 u2(2) unfolding um uf by (rule radix2_bound)
  also have "\<dots> < 2 ^ 64" using ok by (simp add: config_ok_def total_size_def)
  finally have b': "unat (x * f + y) * unat f + unat p < 2 ^ 64" .
  have yf: "unat y < unat f" using u1(2) by (simp add: uy uf)
  have pf: "unat p < unat f" using u2(2) by (simp add: up uf)
  note st1 = radix_step [OF b' pf] and st2 = radix_step [OF b yf]
  have lt: "kpp_king kpp <s SQ_NB cfg" using s0 by (simp add: sq_ok_def)
  have "KPP_fromIndex cfg (KPP_min_index cfg + (x * f + y) * f + p)
          = Some \<lparr>kpp_king = of_u64 x, kpp_piece0 = of_u64 y, kpp_piece1 = of_u64 p\<rparr>"
    using lt by (simp add: KPP_fromIndex_def Let_def st1 st2 add.assoc
        flip: f_def) (simp add: x_def of_u64_to_u64)
  then show ?thesis
    by (simp add: KPP_toIndex_def x_def y_def f_def p_def of_u64_to_u64)
qed

lemma KPP_encode_decode:
  assumes ok: "config_ok cfg"
    and q: "unat ((i - KPP_min_index cfg) div to_u64 (fe_end cfg) div to_u64 (fe_end cfg)) < 2 ^ 31"
    and d: "KPP_fromIndex cfg i = Some kpp"
  shows "KPP_toIndex cfg kpp = i"
proof -
  define j where "j = i - KPP_min_index cfg"
  define f where "f = to_u64 (fe_end cfg)"
  from d have kpp: "kpp = \<lparr>kpp_king = of_u64 (j div f div f),
      kpp_piece0 = of_u64 (j div f mod f), kpp_piece1 = of_u64 (j mod f)\<rparr>"
    by (auto simp add: KPP_fromIndex_def Let_def j_def f_def split: if_splits)
  have a: "to_u64 (of_u64 (j div f div f)) = j div f div f"
    using q by (intro of_u64_small(3)) (simp add: j_def f_def)
  have b: "to_u64 (of_u64 (j div f mod f)) = j div f mod f"
    unfolding f_def by (intro of_u64_small(3) mod_small(2) ok)
  have c: "to_u64 (of_u64 (j mod f)) = j mod f"
    unfolding f_def by (intro of_u64_small(3) mod_small(2) ok)
  have "KPP_toIndex cfg kpp
          = KPP_min_index cfg + ((j div f div f * f + j div f mod f) * f + j mod f)"
    by (simp add: KPP_toIndex_def kpp a b c add.assoc flip: f_def)
  also have "j div f div f * f + j div f mod f = j div f" by (rule div_mult_mod_eq)
  also have "j div f * f + j mod f = j" by (rule div_mult_mod_eq)
  finally show ?thesis by (simp add: j_def)
qed

section \<open>Decoding an index of a range\<close>

lemma small_sq:
  assumes ok: "config_ok cfg" and q: "unat (q::u64) < unat (SQ_NB cfg)"
  shows "sq_ok cfg (of_u64 q)"
proof -
  note c = config_ok_unat [OF ok]
  from q c(5) have "unat q < 2 ^ 31" by (rule less_trans)
  note s = of_u64_small [OF this]
  show ?thesis using q by (simp add: sq_ok_def s(1) sless_nat [OF s(1) c(7)] s(2))
qed

lemma small_piece:
  assumes ok: "config_ok cfg" and q: "unat (q::u64) < unat (fe_end cfg)"
  shows "piece_ok cfg (of_u64 q)"
proof -
  note c = config_ok_unat [OF ok]
  from q c(6) have "unat q < 2 ^ 31" by (rule less_trans)
  note s = of_u64_small [OF this]
  show ?thesis using q by (simp add: piece_ok_def s(1) sless_nat [OF s(1) c(8)] s(2))
qed

lemma large_sq:
  assumes ok: "config_ok cfg" and q: "unat (SQ_NB cfg) \<le> unat (q::u64)" and b: "unat q < 2 ^ 31"
  shows "SQ_NB cfg \<le>s of_u64 q"
proof -
  note c = config_ok_unat [OF ok]
  note s = of_u64_small [OF b]
  have "\<not> of_u64 q <s SQ_NB cfg" using q by (simp add: sless_nat [OF s(1) c(7)] s(2))
  then show ?thesis by (simp add: word_sle_eq word_sless_alt)
qed

lemma range_sums:
  assumes ok: "config_ok cfg"
  shows "unat (KK_min_index cfg) + unat (to_u64 (SQ_NB cfg) * to_u64 (SQ_NB cfg)) < 2 ^ 64"
    and "unat (KKP_min_index cfg)
           + unat (to_u64 (SQ_NB cfg) * to_u64 (SQ_NB cfg) * to_u64 (fe_end cfg)) < 2 ^ 64"
    and "unat (KPP_min_index cfg)
           + unat (to_u64 (SQ_NB cfg) * to_u64 (fe_end cfg) * to_u64 (fe_end cfg)) < 2 ^ 64"
proof -
  from ok have t: "total_size cfg < 2 ^ 64" by (simp add: config_ok_def)
  note e = extents_unat [OF ok] and m = bounds_unat [OF ok]
  show "unat (KK_min_index cfg) + unat (to_u64 (SQ_NB cfg) * to_u64 (SQ_NB cfg)) < 2 ^ 64"
    using t by (simp add: KK_min_index_def e total_size_def)
  show "unat (KKP_min_index cfg)
           + unat (to_u64 (SQ_NB cfg) * to_u64 (SQ_NB cfg) * to_u64 (fe_end cfg)) < 2 ^ 64"
    using t by (simp add: KKP_min_index_def e m total_size_def)
  show "unat (KPP_min_index cfg)
           + unat (to_u64 (SQ_NB cfg) * to_u64 (fe_end cfg) * to_u64 (fe_end cfg)) < 2 ^ 64"
    using t by (simp add: KPP_min_index_def e m total_size_def)
qed

lemma div_less_radix:
  fixes n S T :: nat
  assumes "n < S * T"
  shows "n div T < S"
  using assms by (simp add: less_mult_imp_div_less)

lemma KK_in_range_quot:
  assumes ok: "config_ok cfg" and r: "KK_is_ok cfg i"
  shows "unat ((i - KK_min_index cfg) div to_u64 (SQ_NB cfg)) < unat (SQ_NB cfg)"
proof -
  note c = config_ok_unat [OF ok] and e = extents_unat [OF ok]
  from r have "KK_min_index cfg \<le> i"
    and "i < KK_min_index cfg + to_u64 (SQ_NB cfg) * to_u64 (SQ_NB cfg)"
    by (simp_all add: KK_is_ok_def KK_max_index_def)
  from in_range_offset [OF this range_sums(1) [OF ok]]
  have "unat (i - KK_min_index cfg) < unat (SQ_NB cfg) * unat (SQ_NB cfg)" by (simp add: e)
  then show ?thesis unfolding unat_div c(1) by (rule div_less_radix)
qed

lemma KKP_in_range_quot:
  assumes ok: "config_ok cfg" and r: "KKP_is_ok cfg i"
  shows "unat ((i - KKP_min_index cfg) div to_u64 (fe_end cfg) div to_u64 (SQ_NB cfg))
           < unat (SQ_NB cfg)"
proof -
  note c = config_ok_unat [OF ok] and e = extents_unat [OF ok]
  from r have "KKP_min_index cfg \<le> i"
    and "i < KKP_min_index cfg + to_u64 (SQ_NB cfg) * to_u64 (SQ_NB cfg) * to_u64 (fe_end cfg)"
    by (simp_all add: KKP_is_ok_def KKP_max_index_def)
  from in_range_offset [OF this range_sums(2) [OF ok]]
  have "unat (i - KKP_min_index cfg) < unat (SQ_NB cfg) * unat (SQ_NB cfg) * unat (fe_end cfg)"
    by (simp add: e)
  then have "unat (i - KKP_min_index cfg) div unat (fe_end cfg)
               < unat (SQ_NB cfg) * unat (SQ_NB cfg)"
    by (rule div_less_radix)
  then show ?thesis unfolding unat_div c(1) c(2) by (rule div_less_radix)
qed

lemma KPP_in_range_quot:
  assumes ok: "config_ok cfg" and r: "KPP_is_ok cfg i"
  shows "unat ((i - KPP_min_index cfg) div to_u64 (fe_end cfg) div to_u64 (fe_end cfg))
           < unat (SQ_NB cfg)"
proof -
  note c = config_ok_unat [OF ok] and e = extents_unat [OF ok]
  from r have "KPP_min_index cfg \<le> i"
    and "i < KPP_min_index cfg + to_u64 (SQ_NB cfg) * to_u64 (fe_end cfg) * to_u64 (fe_end cfg)"
    by (simp_all add: KPP_is_ok_def KPP_max_index_def)
  from in_range_offset [OF this range_sums(3) [OF ok]]
  have "unat (i - KPP_min_index cfg) < unat (SQ_NB cfg) * unat (fe_end cfg) * unat (fe_end cfg)"
    by (simp add: e)
  then have "unat (i - KPP_min_index cfg) div unat (fe_end cfg)
               < unat (SQ_NB cfg) * unat (fe_end cfg)"
    by (rule div_less_radix)
  then show ?thesis unfolding unat_div c(2) by (rule div_less_radix)
qed

lemma KK_decode_in_range:
  assumes ok: "config_ok cfg" and r: "KK_is_ok cfg i"
  shows "\<exists>kk. KK_fromIndex cfg i = Some kk \<and> KK_valid cfg kk \<and> KK_toIndex cfg kk = i"
proof -
  note q = KK_in_range_quot [OF ok r]
  note c = config_ok_unat [OF ok]
  let ?k0 = "of_u64 ((i - KK_min_index cfg) div to_u64 (SQ_NB cfg))"
  let ?k1 = "of_u64 ((i - KK_min_index cfg) mod to_u64 (SQ_NB cfg))"
  have v0: "sq_ok cfg ?k0" by (rule small_sq [OF ok q])
  have v1: "sq_ok cfg ?k1" by (rule small_sq [OF ok mod_small(3) [OF ok]])
  have d: "KK_fromIndex cfg i = Some \<lparr>kk_king0 = ?k0, kk_king1 = ?k1\<rparr>"
    using v0 by (simp add: KK_fromIndex_def Let_def sq_ok_def)
  from q c(5) have "unat ((i - KK_min_index cfg) div to_u64 (SQ_NB cfg)) < 2 ^ 31"
    by (rule less_trans)
  from KK_encode_decode [OF ok this d] v0 v1 d show ?thesis by (simp add: KK_valid_def)
qed

lemma KKP_decode_in_range:
  assumes ok: "config_ok cfg" and r: "KKP_is_ok cfg i"
  shows "\<exists>kkp. KKP_fromIndex cfg i = Some kkp \<and> KKP_valid cfg kkp \<and> KKP_toIndex cfg kkp = i"
proof -
  note q = KKP_in_range_quot [OF ok r]
  note c = config_ok_unat [OF ok]
  let ?j = "i - KKP_min_index cfg"
  let ?k0 = "of_u64 (?j div to_u64 (fe_end cfg) div to_u64 (SQ_NB cfg))"
  let ?k1 = "of_u64 (?j div to_u64 (fe_end cfg) mod to_u64 (SQ_NB cfg))"
  let ?p = "of_u64 (?j mod to_u64 (fe_end cfg))"
  have v0: "sq_ok cfg ?k0" by (rule small_sq [OF ok q])
  have v1: "sq_ok cfg ?k1" by (rule small_sq [OF ok mod_small(3) [OF ok]])
  have v2: "piece_ok cfg ?p" by (rule small_piece [OF ok mod_small(4) [OF ok]])
  have d: "KKP_fromIndex cfg i = Some \<lparr>kkp_king0 = ?k0, kkp_king1 = ?k1, kkp_piece = ?p\<rparr>"
    using v0 by (simp add: KKP_fromIndex_def Let_def sq_ok_def)
  from q c(5) have "unat (?j div to_u64 (fe_end cfg) div to_u64 (SQ_NB cfg)) < 2 ^ 31"
    by (rule less_trans)
  from KKP_encode_decode [OF ok this d] v0 v1 v2 d show ?thesis by (simp add: KKP_valid_def)
qed

lemma KPP_decode_in_range:
  assumes ok: "config_ok cfg" and r: "KPP_is_ok cfg i"
  shows "\<exists>kpp. KPP_fromIndex cfg i = Some kpp \<and> KPP_valid cfg kpp \<and> KPP_toIndex cfg kpp = i"
proof -
  note q = KPP_in_range_quot [OF ok r]
  note c = config_ok_unat [OF ok]
  let ?j = "i - KPP_min_index cfg"
  let ?k = "of_u64 (?j div to_u64 (fe_end cfg) div to_u64 (fe_end cfg))"
  let ?p0 = "of_u64 (?j div to_u64 (fe_end cfg) mod to_u64 (fe_end cfg))"
  let ?p1 = "of_u64 (?j mod to_u64 (fe_end cfg))"
  have v0: "sq_ok cfg ?k" by (rule small_sq [OF ok q])
  have v1: "piece_ok cfg ?p0" by (rule small_piece [OF ok mod_small(4) [OF ok]])
  have v2: "piece_ok cfg ?p1" by (rule small_piece [OF ok mod_small(4) [OF ok]])
  have d: "KPP_fromIndex cfg i = Some \<lparr>kpp_king = ?k, kpp_piece0 = ?p0, kpp_piece1 = ?p1\<rparr>"
    using v0 by (simp add: KPP_fromIndex_def Let_def sq_ok_def)
  from q c(5) have "unat (?j div to_u64 (fe_end cfg) div to_u64 (fe_end cfg)) < 2 ^ 31"
    by (rule less_trans)
  from KPP_encode_decode [OF ok this d] v0 v1 v2 d show ?thesis by (simp add: KPP_valid_def)
qed

section \<open>Encoding a valid tuple\<close>

lemma KK_encode_in_range:
  assumes ok: "config_ok cfg" and v: "KK_valid cfg kk"
  shows "KK_is_ok cfg (KK_toIndex cfg kk)"
proof -
  note c = config_ok_unat [OF ok] and e = extents_unat [OF ok]
  from v have s0: "sq_ok cfg (kk_king0 kk)" and s1: "sq_ok cfg (kk_king1 kk)"
    by (simp_all add: KK_valid_def)
  note u0 = sq_ok_unat [OF ok s0] and u1 = sq_ok_unat [OF ok s1]
  define t where "t = to_u64 (kk_king0 kk) * to_u64 (SQ_NB cfg) + to_u64 (kk_king1 kk)"
  have b: "unat (to_u64 (kk_king0 kk)) * unat (to_u64 (SQ_NB cfg)) + unat (to_u64 (kk_king1 kk))
             < unat (SQ_NB cfg) * unat (SQ_NB cfg)"
    unfolding u0 u1 c using u0(2) u1(2) by (rule radix2_bound)
  also have "\<dots> < 2 ^ 64" using ok by (simp add: config_ok_def total_size_def)
  finally have "unat t = unat (to_u64 (kk_king0 kk)) * unat (to_u64 (SQ_NB cfg))
                           + unat (to_u64 (kk_king1 kk))"
    unfolding t_def by (rule unat_mul_add)
  with b have "unat t < unat (to_u64 (SQ_NB cfg) * to_u64 (SQ_NB cfg))" by (simp add: e)
  from offset_in_range [OF this range_sums(1) [OF ok]]
  show ?thesis by (simp add: KK_is_ok_def KK_max_index_def KK_toIndex_def t_def add.assoc)
qed

lemma KKP_encode_in_range:
  assumes ok: "config_ok cfg" and v: "KKP_valid cfg kkp"
  shows "KKP_is_ok cfg (KKP_toIndex cfg kkp)"
proof -
  note c = config_ok_unat [OF ok] and e = extents_unat [OF ok]
  from v have s0: "sq_ok cfg (kkp_king0 kkp)" and s1: "sq_ok cfg (kkp_king1 kkp)"
    and s2: "piece_ok cfg (kkp_piece kkp)"
    by (simp_all add: KKP_valid_def)
  note u0 = sq_ok_unat [OF ok s0] and u1 = sq_ok_unat [OF ok s1]
    and u2 = piece_ok_unat [OF ok s2]
  define m where "m = to_u64 (kkp_king0 kkp) * to_u64 (SQ_NB cfg) + to_u64 (kkp_king1 kkp)"
  define t where "t = m * to_u64 (fe_end cfg) + to_u64 (kkp_piece kkp)"
  have b: "unat (to_u64 (kkp_king0 kkp)) * unat (to_u64 (SQ_NB cfg))
             + unat (to_u64 (kkp_king1 kkp)) < unat (SQ_NB cfg) * unat (SQ_NB cfg)"
    unfolding u0 u1 c using u0(2) u1(2) by (rule radix2_bound)
  also have "\<dots> < 2 ^ 64" using ok by (simp add: config_ok_def total_size_def)
  finally have um: "unat m = unat (to_u64 (kkp_king0 kkp)) * unat (to_u64 (SQ_NB cfg))
                           + unat (to_u64 (kkp_king1 kkp))"
    unfolding m_def by (rule unat_mul_add)
  from b have mb: "unat m < unat (SQ_NB cfg) * unat (SQ_NB cfg)" by (simp add: um)
  have b2: "unat m * unat (to_u64 (fe_end cfg)) + unat (to_u64 (kkp_piece kkp))
              < unat (SQ_NB cfg) * unat (SQ_NB cfg) * unat (fe_end cfg)"
    unfolding u2 c using mb u2(2) by (rule radix2_bound)
  also have "\<dots> < 2 ^ 64" using ok by (simp add: config_ok_def total_size_def)
  finally have "unat t = unat m * unat (to_u64 (fe_end cfg)) + unat (to_u64 (kkp_piece kkp))"
    unfolding t_def by (rule unat_mul_add)
  with b2 have "unat t < unat (to_u64 (SQ_NB cfg) * to_u64 (SQ_NB cfg) * to_u64 (fe_end cfg))"
    by (simp add: e)
  from offset_in_range [OF this range_sums(2) [OF ok]]
  show ?thesis
    by (simp add: KKP_is_ok_def KKP_max_index_def KKP_toIndex_def t_def m_def add.assoc)
qed

lemma KPP_encode_in_range:
  assumes ok: "config_ok cfg" and v: "KPP_valid cfg kpp"
  shows "KPP_is_ok cfg (KPP_toIndex cfg kpp)"
proof -
  note c = config_ok_unat [OF ok] and e = extents_unat [OF ok]
  from v have s0: "sq_ok cfg (kpp_king kpp)" and s1: "piece_ok cfg (kpp_piece0 kpp)"
    and s2: "piece_ok cfg (kpp_piece1 kpp)"
    by (simp_all add: KPP_valid_def)
  note u0 = sq_ok_unat [OF ok s0] and u1 = piece_ok_unat [OF ok s1]
    and u2 = piece_ok_unat [OF ok s2]
  define m where "m = to_u64 (kpp_king kpp) * to_u64 (fe_end cfg) + to_u64 (kpp_piece0 kpp)"
  define t where "t = m * to_u64 (fe_end cfg) + to_u64 (kpp_piece1 kpp)"
  have le: "unat (SQ_NB cfg) * unat (fe_end cfg)
              \<le> unat (SQ_NB cfg) * unat (fe_end cfg) * unat (fe_end cfg)"
    using c(4) by (cases "unat (fe_end cfg)") simp_all
  have b: "unat (to_u64 (kpp_king kpp)) * unat (to_u64 (fe_end cfg))
             + unat (to_u64 (kpp_piece0 kpp)) < unat (SQ_NB cfg) * unat (fe_end cfg)"
    unfolding u0 u1 c using u0(2) u1(2) by (rule radix2_bound)
  also note le
  also have "unat (SQ_NB cfg) * unat (fe_end cfg) * unat (fe_end cfg) < 2 ^ 64"
    using ok by (simp add: config_ok_def total_size_def)
  finally have um: "unat m = unat (to_u64 (kpp_king kpp)) * unat (to_u64 (fe_end cfg))
                           + unat (to_u64 (kpp_piece0 kpp))"
    unfolding m_def by (rule unat_mul_add)
  from b have mb: "unat m < unat (SQ_NB cfg) * unat (fe_end cfg)" by (simp add: um)
  have b2: "unat m * unat (to_u64 (fe_end cfg)) + unat (to_u64 (kpp_piece1 kpp))
              < unat (SQ_NB cfg) * unat (fe_end cfg) * unat (fe_end cfg)"
    unfolding u2 c using mb u2(2) by (rule radix2_bound)
  also have "\<dots> < 2 ^ 64" using ok by (simp add: config_ok_def total_size_def)
  finally have "unat t = unat m * unat (to_u64 (fe_end cfg)) + unat (to_u64 (kpp_piece1 kpp))"
    unfolding t_def by (rule unat_mul_add)
  with b2 have "unat t < unat (to_u64 (SQ_NB cfg) * to_u64 (fe_end cfg) * to_u64 (fe_end cfg))"
    by (simp add: e)
  from offset_in_range [OF this range_sums(3) [OF ok]]
  show ?thesis
    by (simp add: KPP_is_ok_def KPP_max_index_def KPP_toIndex_def t_def m_def add.assoc)
qed

text \<open>ranges are ordered\<close>

lemma ranges_ordered:
  assumes ok: "config_ok cfg"
  shows "KK_min_index cfg \<le> KK_max_index cfg"
    and "KKP_min_index cfg \<le> KKP_max_index cfg"
    and "KPP_min_index cfg \<le> KPP_max_index cfg"
  using bounds_unat [OF ok]
  by (simp_all add: word_le_nat_alt KK_min_index_def KKP_min_index_def KPP_min_index_def
      total_size_def)

section \<open>The example configuration is well formed\<close>

lemma to_u64_numerals:
  "to_u64 81 = 81" "to_u64 1548 = 1548" "to_u64 5 = 5" "to_u64 7 = 7" "to_u64 10 = 10"
  "to_u64 20 = 20" "to_u64 0 = 0"
  by (simp_all add: to_u64_def)

lemma example_cfg_ok: "config_ok example_cfg"
  by (simp add: config_ok_def example_cfg_def total_size_def word_sless_alt)

lemma example_bounds:
  "KK_min_index example_cfg = 0" "KK_max_index example_cfg = 6561"
  "KKP_min_index example_cfg = 6561" "KKP_max_index example_cfg = 10162989"
  "KPP_min_index example_cfg = 10162989" "KPP_max_index example_cfg = 204263613"
  by (simp_all add: KK_min_index_def KK_max_index_def KKP_min_index_def KKP_max_index_def
      KPP_min_index_def KPP_max_index_def example_cfg_def to_u64_numerals)

section \<open>Round trips\<close>

text \<open>
  Claim C1. In a well-formed configuration, for each of KK, KKP and KPP: decoding the index
  of a tuple whose components are in range gives the tuple back (the assertion of
  \<open>fromIndex\<close> holds), and every index \<open>i\<close> of the family's range
  \<open>min_index() \<le> i < max_index()\<close> decodes to a tuple whose index is \<open>i\<close>.
\<close>

theorem roundtrip_families:
  assumes "config_ok cfg"
  shows "(\<forall>kk. KK_valid cfg kk \<longrightarrow> KK_fromIndex cfg (KK_toIndex cfg kk) = Some kk)
       \<and> (\<forall>kkp. KKP_valid cfg kkp \<longrightarrow> KKP_fromIndex cfg (KKP_toIndex cfg kkp) = Some kkp)
       \<and> (\<forall>kpp. KPP_valid cfg kpp \<longrightarrow> KPP_fromIndex cfg (KPP_toIndex cfg kpp) = Some kpp)
       \<and> (\<forall>i. KK_is_ok cfg i \<longrightarrow> map_option (KK_toIndex cfg) (KK_fromIndex cfg i) = Some i)
       \<and> (\<forall>i. KKP_is_ok cfg i \<longrightarrow> map_option (KKP_toIndex cfg) (KKP_fromIndex cfg i) = Some i)
       \<and> (\<forall>i. KPP_is_ok cfg i \<longrightarrow> map_option (KPP_toIndex cfg) (KPP_fromIndex cfg i) = Some i)"
proof (intro conjI allI impI)
  fix kk assume "KK_valid cfg kk"
  with assms show "KK_fromIndex cfg (KK_toIndex cfg kk) = Some kk" by (rule KK_decode_encode)
next
  fix kkp assume "KKP_valid cfg kkp"
  with assms show "KKP_fromIndex cfg (KKP_toIndex cfg kkp) = Some kkp"
    by (rule KKP_decode_encode)
next
  fix kpp assume "KPP_valid cfg kpp"
  with assms show "KPP_fromIndex cfg (KPP_toIndex cfg kpp) = Some kpp"
    by (rule KPP_decode_encode)
next
  fix i assume "KK_is_ok cfg i"
  from KK_decode_in_range [OF assms this]
  show "map_option (KK_toIndex cfg) (KK_fromIndex cfg i) = Some i" by auto
next
  fix i assume "KKP_is_ok cfg i"
  from KKP_decode_in_range [OF assms this]
  show "map_option (KKP_toIndex cfg) (KKP_fromIndex cfg i) = Some i" by auto
next
  fix i assume "KPP_is_ok cfg i"
  from KPP_decode_in_range [OF assms this]
  show "map_option (KPP_toIndex cfg) (KPP_fromIndex cfg i) = Some i" by auto
qed

theorem roundtrip_families_witness:
  "config_ok example_cfg
   \<and> KK_valid example_cfg \<lparr>kk_king0 = 5, kk_king1 = 7\<rparr>
   \<and> KK_fromIndex example_cfg (KK_toIndex example_cfg \<lparr>kk_king0 = 5, kk_king1 = 7\<rparr>)
       = Some \<lparr>kk_king0 = 5, kk_king1 = 7\<rparr>
   \<and> KKP_valid example_cfg \<lparr>kkp_king0 = 5, kkp_king1 = 7, kkp_piece = 10\<rparr>
   \<and> KKP_fromIndex example_cfg
         (KKP_toIndex example_cfg \<lparr>kkp_king0 = 5, kkp_king1 = 7, kkp_piece = 10\<rparr>)
       = Some \<lparr>kkp_king0 = 5, kkp_king1 = 7, kkp_piece = 10\<rparr>
   \<and> KPP_valid example_cfg \<lparr>kpp_king = 5, kpp_piece0 = 10, kpp_piece1 = 20\<rparr>
   \<and> KPP_toIndex example_cfg \<lparr>kpp_king = 5, kpp_piece0 = 10, kpp_piece1 = 20\<rparr> = 22160009
   \<and> KPP_fromIndex example_cfg 22160009
       = Some \<lparr>kpp_king = 5, kpp_piece0 = 10, kpp_piece1 = 20\<rparr>
   \<and> KK_is_ok example_cfg 100
   \<and> map_option (KK_toIndex example_cfg) (KK_fromIndex example_cfg 100) = Some 100
   \<and> KKP_is_ok example_cfg 6561
   \<and> map_option (KKP_toIndex example_cfg) (KKP_fromIndex example_cfg 6561) = Some 6561
   \<and> KPP_is_ok example_cfg 204263612
   \<and> map_option (KPP_toIndex example_cfg) (KPP_fromIndex example_cfg 204263612)
       = Some 204263612"
proof -
  have v: "KK_valid example_cfg \<lparr>kk_king0 = 5, kk_king1 = 7\<rparr>"
    "KKP_valid example_cfg \<lparr>kkp_king0 = 5, kkp_king1 = 7, kkp_piece = 10\<rparr>"
    "KPP_valid example_cfg \<lparr>kpp_king = 5, kpp_piece0 = 10, kpp_piece1 = 20\<rparr>"
    by (simp_all add: KK_valid_def KKP_valid_def KPP_valid_def sq_ok_def piece_ok_def
        example_cfg_def word_sle_eq)
  have r: "KK_is_ok example_cfg 100" "KKP_is_ok example_cfg 6561"
    "KPP_is_ok example_cfg 204263612"
    by (simp_all add: KK_is_ok_def KKP_is_ok_def KPP_is_ok_def example_bounds)
  have e: "KPP_toIndex example_cfg \<lparr>kpp_king = 5, kpp_piece0 = 10, kpp_piece1 = 20\<rparr> = 22160009"
    by (simp add: KPP_toIndex_def example_bounds) (simp add: example_cfg_def to_u64_numerals)
  show ?thesis
    using roundtrip_families [OF example_cfg_ok] v r e example_cfg_ok by (auto simp del: )
qed

section \<open>The layout of the global index space\<close>

lemma ranges_partition:
  assumes ok: "config_ok cfg"
  shows "(KK_is_ok cfg i \<or> KKP_is_ok cfg i \<or> KPP_is_ok cfg i) \<longleftrightarrow> i < KPP_max_index cfg"
    and "\<not> (KK_is_ok cfg i \<and> KKP_is_ok cfg i)"
    and "\<not> (KK_is_ok cfg i \<and> KPP_is_ok cfg i)"
    and "\<not> (KKP_is_ok cfg i \<and> KPP_is_ok cfg i)"
proof -
  note o = ranges_ordered [OF ok]
  have z: "KK_min_index cfg = 0" by (simp add: KK_min_index_def)
  have c: "KKP_min_index cfg = KK_max_index cfg" "KPP_min_index cfg = KKP_max_index cfg"
    by (simp_all add: KKP_min_index_def KPP_min_index_def)
  from o c have le: "KK_max_index cfg \<le> KKP_max_index cfg"
    "KKP_max_index cfg \<le> KPP_max_index cfg" by simp_all
  show "(KK_is_ok cfg i \<or> KKP_is_ok cfg i \<or> KPP_is_ok cfg i) \<longleftrightarrow> i < KPP_max_index cfg"
    unfolding KK_is_ok_def KKP_is_ok_def KPP_is_ok_def c z using le by auto
  show "\<not> (KK_is_ok cfg i \<and> KKP_is_ok cfg i)"
    unfolding KK_is_ok_def KKP_is_ok_def c by auto
  show "\<not> (KK_is_ok cfg i \<and> KPP_is_ok cfg i)"
    unfolding KK_is_ok_def KPP_is_ok_def c using le by auto
  show "\<not> (KKP_is_ok cfg i \<and> KPP_is_ok cfg i)"
    unfolding KKP_is_ok_def KPP_is_ok_def c by auto
qed

text \<open>
  Claim C2. In a well-formed configuration the three ranges chain: the KK range starts at
  0, the KKP range starts where the KK range ends and the KPP range starts where the KKP
  range ends; their extents are \<open>SQ_NB * SQ_NB\<close>, \<open>SQ_NB * SQ_NB * fe_end\<close> and
  \<open>SQ_NB * fe_end * fe_end\<close>; an index is in one of the ranges exactly when it is below
  \<open>KPP::max_index()\<close>, and no index is in two of them.
\<close>

theorem ranges_chain:
  assumes "config_ok cfg"
  shows "KK_min_index cfg = 0
       \<and> KKP_min_index cfg = KK_max_index cfg
       \<and> KPP_min_index cfg = KKP_max_index cfg
       \<and> unat (KK_max_index cfg) - unat (KK_min_index cfg)
           = unat (SQ_NB cfg) * unat (SQ_NB cfg)
       \<and> unat (KKP_max_index cfg) - unat (KKP_min_index cfg)
           = unat (SQ_NB cfg) * unat (SQ_NB cfg) * unat (fe_end cfg)
       \<and> unat (KPP_max_index cfg) - unat (KPP_min_index cfg)
           = unat (SQ_NB cfg) * unat (fe_end cfg) * unat (fe_end cfg)
       \<and> (\<forall>i. (KK_is_ok cfg i \<or> KKP_is_ok cfg i \<or> KPP_is_ok cfg i)
                 \<longleftrightarrow> i < KPP_max_index cfg)
       \<and> (\<forall>i. \<not> (KK_is_ok cfg i \<and> KKP_is_ok cfg i)
              \<and> \<not> (KK_is_ok cfg i \<and> KPP_is_ok cfg i)
              \<and> \<not> (KKP_is_ok cfg i \<and> KPP_is_ok cfg i))"
proof -
  note b = bounds_unat [OF assms]
  have c: "KK_min_index cfg = 0" "KKP_min_index cfg = KK_max_index cfg"
    "KPP_min_index cfg = KKP_max_index cfg"
    by (simp_all add: KK_min_index_def KKP_min_index_def KPP_min_index_def)
  have e: "unat (KK_max_index cfg) - unat (KK_min_index cfg)
           = unat (SQ_NB cfg) * unat (SQ_NB cfg)"
    "unat (KKP_max_index cfg) - unat (KKP_min_index cfg)
           = unat (SQ_NB cfg) * unat (SQ_NB cfg) * unat (fe_end cfg)"
    "unat (KPP_max_index cfg) - unat (KPP_min_index cfg)
           = unat (SQ_NB cfg) * unat (fe_end cfg) * unat (fe_end cfg)"
    unfolding c b by (simp_all add: total_size_def)
  from c e ranges_partition [OF assms] show ?thesis by blast
qed

theorem ranges_chain_witness:
  "config_ok example_cfg
   \<and> KK_max_index example_cfg = 81 * 81
   \<and> KKP_min_index example_cfg = 81 * 81
   \<and> KKP_max_index example_cfg = KKP_min_index example_cfg + 81 * 81 * 1548
   \<and> unat (KPP_max_index example_cfg) - unat (KPP_min_index example_cfg) = 81 * 1548 * 1548
   \<and> KKP_is_ok example_cfg 6561 \<and> \<not> KK_is_ok example_cfg 6561
   \<and> \<not> KPP_is_ok example_cfg 6561 \<and> 6561 < KPP_max_index example_cfg"
  using ranges_chain [OF example_cfg_ok] example_cfg_ok
  by (simp add: example_bounds KKP_is_ok_def KK_is_ok_def KPP_is_ok_def)

text \<open>
  Claim C3, as amended. Index 0 begins the KK range, the KKP range begins
  \<open>SQ_NB * SQ_NB\<close> indices later, and the KPP range begins \<open>SQ_NB * SQ_NB * fe_end\<close>
  indices after the start of the KKP range (in 64-bit arithmetic):
  \<open>KPP::min_index() == SQ_NB * SQ_NB + SQ_NB * SQ_NB * fe_end\<close>.
\<close>

theorem layout_offsets:
  "KK_min_index cfg = 0
   \<and> KKP_min_index cfg = to_u64 (SQ_NB cfg) * to_u64 (SQ_NB cfg)
   \<and> KPP_min_index cfg
       = to_u64 (SQ_NB cfg) * to_u64 (SQ_NB cfg)
         + to_u64 (SQ_NB cfg) * to_u64 (SQ_NB cfg) * to_u64 (fe_end cfg)"
  by (simp add: KK_min_index_def KK_max_index_def KKP_min_index_def KKP_max_index_def
      KPP_min_index_def)

text \<open>
  The offset of the claim as stated, \<open>SQ_NB\<^sup>2 * SQ_NB\<^sup>2 * fe_end\<close> after the start of the KKP
  range, is not where the KPP range begins: with 81 squares and 1548 piece codes the KPP
  range begins at 10162989, not at 6561 + 6561 * 6561 * 1548.
\<close>

theorem layout_offsets_counterexample:
  "KPP_min_index example_cfg
     \<noteq> to_u64 (SQ_NB example_cfg) * to_u64 (SQ_NB example_cfg)
       + to_u64 (SQ_NB example_cfg) * to_u64 (SQ_NB example_cfg)
         * to_u64 (SQ_NB example_cfg) * to_u64 (SQ_NB example_cfg) * to_u64 (fe_end example_cfg)"
  by (simp add: example_bounds) (simp add: example_cfg_def to_u64_numerals)

section \<open>Indices beyond the range of their family\<close>

lemma beyond_offset:
  fixes i lo e :: u64
  assumes "lo + e \<le> i" "unat lo + unat e < 2 ^ 64"
  shows "unat e \<le> unat (i - lo)"
proof -
  have a: "unat (lo + e) = unat lo + unat e"
    using assms(2) by (intro unat_add_lem [THEN iffD1]) simp
  have "unat (lo + e) \<le> unat i" using assms(1) by (simp add: word_le_nat_alt)
  then have l: "unat lo + unat e \<le> unat i" by (simp add: a)
  then have "lo \<le> i" by (simp add: word_le_nat_alt)
  then have "unat (i - lo) = unat i - unat lo" by (simp add: unat_sub)
  with l show ?thesis by linarith
qed

lemma div_ge_radix:
  fixes n S T :: nat
  assumes "S * T \<le> n" "0 < T"
  shows "S \<le> n div T"
proof -
  have "S * T div T \<le> n div T" using assms(1) by (rule div_le_mono)
  then show ?thesis using assms(2) by simp
qed

lemma KK_beyond_quot:
  assumes ok: "config_ok cfg" and r: "KK_max_index cfg \<le> i"
  shows "unat (SQ_NB cfg) \<le> unat ((i - KK_min_index cfg) div to_u64 (SQ_NB cfg))"
proof -
  note c = config_ok_unat [OF ok] and e = extents_unat [OF ok]
  from r have "KK_min_index cfg + to_u64 (SQ_NB cfg) * to_u64 (SQ_NB cfg) \<le> i"
    by (simp add: KK_max_index_def)
  from beyond_offset [OF this range_sums(1) [OF ok]]
  have "unat (SQ_NB cfg) * unat (SQ_NB cfg) \<le> unat (i - KK_min_index cfg)" by (simp add: e)
  then show ?thesis unfolding unat_div c(1) using c(3) by (rule div_ge_radix)
qed

lemma KKP_beyond_quot:
  assumes ok: "config_ok cfg" and r: "KKP_max_index cfg \<le> i"
  shows "unat (SQ_NB cfg)
           \<le> unat ((i - KKP_min_index cfg) div to_u64 (fe_end cfg) div to_u64 (SQ_NB cfg))"
proof -
  note c = config_ok_unat [OF ok] and e = extents_unat [OF ok]
  from r have "KKP_min_index cfg + to_u64 (SQ_NB cfg) * to_u64 (SQ_NB cfg) * to_u64 (fe_end cfg)
                 \<le> i"
    by (simp add: KKP_max_index_def)
  from beyond_offset [OF this range_sums(2) [OF ok]]
  have "unat (SQ_NB cfg) * unat (SQ_NB cfg) * unat (fe_end cfg) \<le> unat (i - KKP_min_index cfg)"
    by (simp add: e)
  then have "unat (SQ_NB cfg) * unat (SQ_NB cfg) \<le> unat (i - KKP_min_index cfg) div unat (fe_end cfg)"
    using c(4) by (rule div_ge_radix)
  then show ?thesis unfolding unat_div c(1) c(2) using c(3) by (rule div_ge_radix)
qed

lemma KPP_beyond_quot:
  assumes ok: "config_ok cfg" and r: "KPP_max_index cfg \<le> i"
  shows "unat (SQ_NB cfg)
           \<le> unat ((i - KPP_min_index cfg) div to_u64 (fe_end cfg) div to_u64 (fe_end cfg))"
proof -
  note c = config_ok_unat [OF ok] and e = extents_unat [OF ok]
  from r have "KPP_min_index cfg + to_u64 (SQ_NB cfg) * to_u64 (fe_end cfg) * to_u64 (fe_end cfg)
                 \<le> i"
    by (simp add: KPP_max_index_def)
  from beyond_offset [OF this range_sums(3) [OF ok]]
  have "unat (SQ_NB cfg) * unat (fe_end cfg) * unat (fe_end cfg) \<le> unat (i - KPP_min_index cfg)"
    by (simp add: e)
  then have "unat (SQ_NB cfg) * unat (fe_end cfg) \<le> unat (i - KPP_min_index cfg) div unat (fe_end cfg)"
    using c(4) by (rule div_ge_radix)
  then show ?thesis unfolding unat_div c(2) using c(4) by (rule div_ge_radix)
qed

lemma KK_decode_king:
  "KK_fromIndex cfg i = Some kk
   \<Longrightarrow> kk_king0 kk = of_u64 ((i - KK_min_index cfg) div to_u64 (SQ_NB cfg))"
  by (auto simp add: KK_fromIndex_def Let_def split: if_splits)

lemma KKP_decode_king:
  "KKP_fromIndex cfg i = Some kkp
   \<Longrightarrow> kkp_king0 kkp
       = of_u64 ((i - KKP_min_index cfg) div to_u64 (fe_end cfg) div to_u64 (SQ_NB cfg))"
  by (auto simp add: KKP_fromIndex_def Let_def split: if_splits)

lemma KPP_decode_king:
  "KPP_fromIndex cfg i = Some kpp
   \<Longrightarrow> kpp_king kpp
       = of_u64 ((i - KPP_min_index cfg) div to_u64 (fe_end cfg) div to_u64 (fe_end cfg))"
  by (auto simp add: KPP_fromIndex_def Let_def split: if_splits)

lemma release_decodes:
  assumes "\<not> assert_lv3 cfg"
  shows "KK_fromIndex cfg i \<noteq> None" "KKP_fromIndex cfg i \<noteq> None" "KPP_fromIndex cfg i \<noteq> None"
  using assms by (simp_all add: KK_fromIndex_def KKP_fromIndex_def KPP_fromIndex_def Let_def)

text \<open>
  Claim C9, as amended. In a well-formed configuration and for each family, a release
  build (without \<open>ASSERT_LV3\<close>) decodes every \<open>u64\<close> index without failure, and the round
  trip \<open>fromIndex(i).toIndex() == i\<close> holds for every index \<open>i\<close> whose king quotient
  (\<open>i - min_index()\<close> divided by the inner radices) is below \<open>2\<^sup>3\<^sup>1\<close>, that is, fits the
  32-bit signed \<open>Square\<close>; such an index at or beyond \<open>max_index()\<close> decodes to a tuple whose
  king component is at least \<open>SQ_NB\<close>, and that tuple encodes to the original index.
\<close>

theorem roundtrip_beyond_range:
  assumes "config_ok cfg"
  shows "(\<not> assert_lv3 cfg \<longrightarrow>
            (\<forall>i. KK_fromIndex cfg i \<noteq> None \<and> KKP_fromIndex cfg i \<noteq> None
                  \<and> KPP_fromIndex cfg i \<noteq> None))
       \<and> (\<forall>i kk. unat ((i - KK_min_index cfg) div to_u64 (SQ_NB cfg)) < 2 ^ 31
              \<longrightarrow> KK_fromIndex cfg i = Some kk
              \<longrightarrow> KK_toIndex cfg kk = i
                  \<and> (KK_max_index cfg \<le> i \<longrightarrow> SQ_NB cfg \<le>s kk_king0 kk))
       \<and> (\<forall>i kkp. unat ((i - KKP_min_index cfg) div to_u64 (fe_end cfg) div to_u64 (SQ_NB cfg))
                     < 2 ^ 31
              \<longrightarrow> KKP_fromIndex cfg i = Some kkp
              \<longrightarrow> KKP_toIndex cfg kkp = i
                  \<and> (KKP_max_index cfg \<le> i \<longrightarrow> SQ_NB cfg \<le>s kkp_king0 kkp))
       \<and> (\<forall>i kpp. unat ((i - KPP_min_index cfg) div to_u64 (fe_end cfg) div to_u64 (fe_end cfg))
                     < 2 ^ 31
              \<longrightarrow> KPP_fromIndex cfg i = Some kpp
              \<longrightarrow> KPP_toIndex cfg kpp = i
                  \<and> (KPP_max_index cfg \<le> i \<longrightarrow> SQ_NB cfg \<le>s kpp_king kpp))"
proof (intro conjI allI impI)
  fix i assume "\<not> assert_lv3 cfg"
  then show "KK_fromIndex cfg i \<noteq> None" "KKP_fromIndex cfg i \<noteq> None"
    "KPP_fromIndex cfg i \<noteq> None" by (rule release_decodes)+
next
  fix i kk
  assume q: "unat ((i - KK_min_index cfg) div to_u64 (SQ_NB cfg)) < 2 ^ 31"
    and d: "KK_fromIndex cfg i = Some kk"
  from assms q d show "KK_toIndex cfg kk = i" by (rule KK_encode_decode)
  assume "KK_max_index cfg \<le> i"
  from large_sq [OF assms KK_beyond_quot [OF assms this] q]
  show "SQ_NB cfg \<le>s kk_king0 kk" by (simp add: KK_decode_king [OF d])
next
  fix i kkp
  assume q: "unat ((i - KKP_min_index cfg) div to_u64 (fe_end cfg) div to_u64 (SQ_NB cfg)) < 2 ^ 31"
    and d: "KKP_fromIndex cfg i = Some kkp"
  from assms q d show "KKP_toIndex cfg kkp = i" by (rule KKP_encode_decode)
  assume "KKP_max_index cfg \<le> i"
  from large_sq [OF assms KKP_beyond_quot [OF assms this] q]
  show "SQ_NB cfg \<le>s kkp_king0 kkp" by (simp add: KKP_decode_king [OF d])
next
  fix i kpp
  assume q: "unat ((i - KPP_min_index cfg) div to_u64 (fe_end cfg) div to_u64 (fe_end cfg)) < 2 ^ 31"
    and d: "KPP_fromIndex cfg i = Some kpp"
  from assms q d show "KPP_toIndex cfg kpp = i" by (rule KPP_encode_decode)
  assume "KPP_max_index cfg \<le> i"
  from large_sq [OF assms KPP_beyond_quot [OF assms this] q]
  show "SQ_NB cfg \<le>s kpp_king kpp" by (simp add: KPP_decode_king [OF d])
qed

lemma example_decodes:
  "KK_fromIndex example_cfg 6561 = Some \<lparr>kk_king0 = 81, kk_king1 = 0\<rparr>"
  "KKP_fromIndex example_cfg 10162989 = Some \<lparr>kkp_king0 = 81, kkp_king1 = 0, kkp_piece = 0\<rparr>"
  "KPP_fromIndex example_cfg 204263613 = Some \<lparr>kpp_king = 81, kpp_piece0 = 0, kpp_piece1 = 0\<rparr>"
  "KK_fromIndex example_cfg 347892350976 = Some \<lparr>kk_king0 = 0, kk_king1 = 0\<rparr>"
  by (simp_all add: KK_fromIndex_def KKP_fromIndex_def KPP_fromIndex_def example_bounds Let_def)
     (simp_all add: example_cfg_def to_u64_numerals of_u64_def)

theorem roundtrip_beyond_range_witness:
  "config_ok example_cfg \<and> \<not> assert_lv3 example_cfg
   \<and> KK_fromIndex example_cfg 6561 = Some \<lparr>kk_king0 = 81, kk_king1 = 0\<rparr>
   \<and> KK_max_index example_cfg \<le> 6561
   \<and> unat ((6561 - KK_min_index example_cfg) div to_u64 (SQ_NB example_cfg)) < 2 ^ 31
   \<and> KK_toIndex example_cfg \<lparr>kk_king0 = 81, kk_king1 = 0\<rparr> = 6561
   \<and> SQ_NB example_cfg \<le>s 81
   \<and> KKP_fromIndex example_cfg 10162989
       = Some \<lparr>kkp_king0 = 81, kkp_king1 = 0, kkp_piece = 0\<rparr>
   \<and> KKP_toIndex example_cfg \<lparr>kkp_king0 = 81, kkp_king1 = 0, kkp_piece = 0\<rparr> = 10162989
   \<and> KPP_fromIndex example_cfg 204263613
       = Some \<lparr>kpp_king = 81, kpp_piece0 = 0, kpp_piece1 = 0\<rparr>
   \<and> KPP_toIndex example_cfg \<lparr>kpp_king = 81, kpp_piece0 = 0, kpp_piece1 = 0\<rparr> = 204263613"
proof -
  have q: "unat ((6561 - KK_min_index example_cfg) div to_u64 (SQ_NB example_cfg)) < 2 ^ 31"
    "unat ((10162989 - KKP_min_index example_cfg) div to_u64 (fe_end example_cfg)
            div to_u64 (SQ_NB example_cfg)) < 2 ^ 31"
    "unat ((204263613 - KPP_min_index example_cfg) div to_u64 (fe_end example_cfg)
            div to_u64 (fe_end example_cfg)) < 2 ^ 31"
    by (simp_all add: example_bounds) (simp_all add: example_cfg_def to_u64_numerals)
  have m: "KK_max_index example_cfg \<le> 6561" "\<not> assert_lv3 example_cfg"
    by (simp_all add: example_bounds) (simp add: example_cfg_def)
  show ?thesis
    using roundtrip_beyond_range [OF example_cfg_ok] q m example_decodes example_cfg_ok
    by (auto simp del: )
qed

text \<open>
  The claim as stated fails: the index \<open>81 * 2\<^sup>3\<^sup>2\<close> is not below \<open>KK::min_index()\<close>, a
  release build decodes it to the tuple (0, 0), whose king component is below \<open>SQ_NB\<close>, and
  that tuple encodes to 0.
\<close>

theorem roundtrip_beyond_range_counterexample:
  "\<not> assert_lv3 example_cfg
   \<and> KK_min_index example_cfg \<le> 347892350976
   \<and> KK_max_index example_cfg \<le> 347892350976
   \<and> KK_fromIndex example_cfg 347892350976 = Some \<lparr>kk_king0 = 0, kk_king1 = 0\<rparr>
   \<and> 0 <s SQ_NB example_cfg
   \<and> KK_toIndex example_cfg \<lparr>kk_king0 = 0, kk_king1 = 0\<rparr> \<noteq> 347892350976"
  by (simp add: example_bounds example_decodes KK_toIndex_def)
     (simp add: example_cfg_def to_u64_numerals word_sless_alt)

section \<open>Symmetry folding\<close>

lemma mir_piece_at_ok:
  assumes ok: "config_ok cfg" and p: "piece_ok cfg p"
  shows "mir_piece_at cfg p = Some (mir_piece cfg ! unat p)"
    and "unat p < length (mir_piece cfg)"
proof -
  from ok have l: "length (mir_piece cfg) = unat (fe_end cfg)" by (simp add: config_ok_def)
  show "unat p < length (mir_piece cfg)" using piece_ok_unat(2) [OF ok p] by (simp add: l)
  then show "mir_piece_at cfg p = Some (mir_piece cfg ! unat p)"
    using p by (simp add: mir_piece_at_def piece_ok_def)
qed

lemma KKP_toLowerDimensions_ok:
  assumes "config_ok cfg" "piece_ok cfg (kkp_piece kkp)"
  shows "KKP_toLowerDimensions cfg kkp =
     Some [kkp,
       \<lparr>kkp_king0 = Mir cfg (kkp_king0 kkp), kkp_king1 = Mir cfg (kkp_king1 kkp),
        kkp_piece = mir_piece cfg ! unat (kkp_piece kkp)\<rparr>]"
  by (simp add: KKP_toLowerDimensions_def mir_piece_at_ok [OF assms])

lemma KPP_toLowerDimensions_ok:
  assumes "config_ok cfg" "piece_ok cfg (kpp_piece0 kpp)" "piece_ok cfg (kpp_piece1 kpp)"
  shows "KPP_toLowerDimensions cfg kpp =
     Some [kpp,
       \<lparr>kpp_king = kpp_king kpp, kpp_piece0 = kpp_piece1 kpp, kpp_piece1 = kpp_piece0 kpp\<rparr>,
       \<lparr>kpp_king = Mir cfg (kpp_king kpp),
        kpp_piece0 = mir_piece cfg ! unat (kpp_piece0 kpp),
        kpp_piece1 = mir_piece cfg ! unat (kpp_piece1 kpp)\<rparr>,
       \<lparr>kpp_king = Mir cfg (kpp_king kpp),
        kpp_piece0 = mir_piece cfg ! unat (kpp_piece1 kpp),
        kpp_piece1 = mir_piece cfg ! unat (kpp_piece0 kpp)\<rparr>]"
  by (simp add: KPP_toLowerDimensions_def mir_piece_at_ok [OF assms(1,2)]
      mir_piece_at_ok [OF assms(1,3)])

text \<open>
  Claim C6. \<open>toLowerDimensions\<close> lists the feature itself first and then its symmetric
  variants: KK gives 1 element, the feature itself; KKP gives 2, itself and
  \<open>(Mir(king0), Mir(king1), mir_piece[piece])\<close>; KPP gives 4, itself, the feature with the two
  pieces swapped, \<open>(Mir(king), mir_piece[piece0], mir_piece[piece1])\<close> and
  \<open>(Mir(king), mir_piece[piece1], mir_piece[piece0])\<close>. The piece codes are those of the
  table, so they are taken in range.
\<close>

theorem toLowerDimensions_classes:
  assumes "config_ok cfg"
  shows "KK_toLowerDimensions cfg kk = Some [kk]
       \<and> (piece_ok cfg (kkp_piece kkp) \<longrightarrow>
            KKP_toLowerDimensions cfg kkp =
              Some [kkp,
                \<lparr>kkp_king0 = Mir cfg (kkp_king0 kkp), kkp_king1 = Mir cfg (kkp_king1 kkp),
                 kkp_piece = mir_piece cfg ! unat (kkp_piece kkp)\<rparr>])
       \<and> (piece_ok cfg p0 \<and> piece_ok cfg p1 \<longrightarrow>
            KPP_toLowerDimensions cfg \<lparr>kpp_king = k, kpp_piece0 = p0, kpp_piece1 = p1\<rparr> =
              Some [\<lparr>kpp_king = k, kpp_piece0 = p0, kpp_piece1 = p1\<rparr>,
                \<lparr>kpp_king = k, kpp_piece0 = p1, kpp_piece1 = p0\<rparr>,
                \<lparr>kpp_king = Mir cfg k, kpp_piece0 = mir_piece cfg ! unat p0,
                 kpp_piece1 = mir_piece cfg ! unat p1\<rparr>,
                \<lparr>kpp_king = Mir cfg k, kpp_piece0 = mir_piece cfg ! unat p1,
                 kpp_piece1 = mir_piece cfg ! unat p0\<rparr>])"
proof (intro conjI impI)
  show "KK_toLowerDimensions cfg kk = Some [kk]" by (simp add: KK_toLowerDimensions_def)
next
  assume "piece_ok cfg (kkp_piece kkp)"
  with assms show "KKP_toLowerDimensions cfg kkp =
      Some [kkp,
        \<lparr>kkp_king0 = Mir cfg (kkp_king0 kkp), kkp_king1 = Mir cfg (kkp_king1 kkp),
         kkp_piece = mir_piece cfg ! unat (kkp_piece kkp)\<rparr>]"
    by (rule KKP_toLowerDimensions_ok)
next
  assume "piece_ok cfg p0 \<and> piece_ok cfg p1"
  then show "KPP_toLowerDimensions cfg \<lparr>kpp_king = k, kpp_piece0 = p0, kpp_piece1 = p1\<rparr> =
      Some [\<lparr>kpp_king = k, kpp_piece0 = p0, kpp_piece1 = p1\<rparr>,
        \<lparr>kpp_king = k, kpp_piece0 = p1, kpp_piece1 = p0\<rparr>,
        \<lparr>kpp_king = Mir cfg k, kpp_piece0 = mir_piece cfg ! unat p0,
         kpp_piece1 = mir_piece cfg ! unat p1\<rparr>,
        \<lparr>kpp_king = Mir cfg k, kpp_piece0 = mir_piece cfg ! unat p1,
         kpp_piece1 = mir_piece cfg ! unat p0\<rparr>]"
    using KPP_toLowerDimensions_ok [OF assms,
        of "\<lparr>kpp_king = k, kpp_piece0 = p0, kpp_piece1 = p1\<rparr>"] by simp
qed

lemma example_tables:
  "Mir example_cfg 5 = 77" "Mir example_cfg 7 = 79"
  "mir_piece example_cfg ! 10 = 1537"
  "mir_piece example_cfg ! 20 = 1527"
  by (simp_all add: example_cfg_def Mir81_def)

theorem toLowerDimensions_classes_witness:
  "config_ok example_cfg
   \<and> KK_toLowerDimensions example_cfg \<lparr>kk_king0 = 5, kk_king1 = 7\<rparr>
       = Some [\<lparr>kk_king0 = 5, kk_king1 = 7\<rparr>]
   \<and> piece_ok example_cfg 10 \<and> piece_ok example_cfg 20
   \<and> KKP_toLowerDimensions example_cfg \<lparr>kkp_king0 = 5, kkp_king1 = 7, kkp_piece = 10\<rparr>
       = Some [\<lparr>kkp_king0 = 5, kkp_king1 = 7, kkp_piece = 10\<rparr>,
               \<lparr>kkp_king0 = 77, kkp_king1 = 79, kkp_piece = 1537\<rparr>]
   \<and> KPP_toLowerDimensions example_cfg \<lparr>kpp_king = 5, kpp_piece0 = 10, kpp_piece1 = 20\<rparr>
       = Some [\<lparr>kpp_king = 5, kpp_piece0 = 10, kpp_piece1 = 20\<rparr>,
               \<lparr>kpp_king = 5, kpp_piece0 = 20, kpp_piece1 = 10\<rparr>,
               \<lparr>kpp_king = 77, kpp_piece0 = 1537, kpp_piece1 = 1527\<rparr>,
               \<lparr>kpp_king = 77, kpp_piece0 = 1527, kpp_piece1 = 1537\<rparr>]"
proof -
  have p: "piece_ok example_cfg 10" "piece_ok example_cfg 20"
    by (simp_all add: piece_ok_def example_cfg_def word_sle_eq)
  show ?thesis
    using toLowerDimensions_classes [OF example_cfg_ok,
        of "\<lparr>kk_king0 = 5, kk_king1 = 7\<rparr>"
           "\<lparr>kkp_king0 = 5, kkp_king1 = 7, kkp_piece = 10\<rparr>" 10 20 5]
      p example_cfg_ok
    by (simp add: example_tables)
qed

lemma unat_small_ok:
  assumes ok: "config_ok cfg"
  shows "unat (s::32 word) < unat (SQ_NB cfg) \<Longrightarrow> sq_ok cfg s"
    and "unat (s::32 word) < unat (fe_end cfg) \<Longrightarrow> piece_ok cfg s"
proof -
  have u: "unat (ucast s :: u64) = unat s"
    by (simp add: unsigned_ucast_eq take_bit_nat_eq_self_iff)
       (rule less_trans [OF unsigned_less], simp)
  have o: "of_u64 (ucast s :: u64) = s"
    unfolding of_u64_def by (rule bit_word_eqI) (simp add: bit_simps)
  show "unat s < unat (SQ_NB cfg) \<Longrightarrow> sq_ok cfg s"
    using small_sq [OF ok, of "ucast s"] by (simp add: u o)
  show "unat s < unat (fe_end cfg) \<Longrightarrow> piece_ok cfg s"
    using small_piece [OF ok, of "ucast s"] by (simp add: u o)
qed

lemma Mir81_range:
  assumes "unat (sq::32 word) < 81"
  shows "unat (Mir81 sq) < 81"
proof -
  have d: "unat (sq div 9) = unat sq div 9" by (simp add: unat_div)
  have m: "unat (sq mod 9) = unat sq mod 9" by (simp add: unat_mod)
  have d8: "unat sq div 9 \<le> 8" using assms by simp
  have le: "sq div 9 \<le> 8" using d8 by (simp add: word_le_nat_alt d)
  have s: "unat (8 - sq div 9) = 8 - unat sq div 9" using le by (simp add: unat_sub d)
  have "unat (8 - sq div 9) * unat (9 :: 32 word) < 2 ^ LENGTH(32)"
    unfolding s using d8 by simp
  from unat_mult_lem [THEN iffD1, OF this]
  have p: "unat ((8 - sq div 9) * 9) = (8 - unat sq div 9) * 9"
    unfolding s by simp
  have "unat ((8 - sq div 9) * 9) + unat (sq mod 9) < 2 ^ LENGTH(32)"
    unfolding p m by simp
  from unat_add_lem [THEN iffD1, OF this]
  have "unat (Mir81 sq) = (8 - unat sq div 9) * 9 + unat sq mod 9"
    unfolding Mir81_def p m .
  also have "\<dots> < 81"
  proof -
    have "unat sq mod 9 < 9" by simp
    moreover have "(8 - unat sq div 9) * 9 \<le> 72" by simp
    ultimately show ?thesis by linarith
  qed
  finally show ?thesis .
qed

lemma example_tables_ok: "tables_ok example_cfg"
proof -
  have S: "unat (SQ_NB example_cfg) = 81" and F: "unat (fe_end example_cfg) = 1548"
    by (simp_all add: example_cfg_def)
  have "sq_ok example_cfg (Mir example_cfg sq)" if "sq_ok example_cfg sq" for sq
  proof -
    from sq_ok_unat(2) [OF example_cfg_ok that] have "unat sq < 81" by (simp add: S)
    then have "unat (Mir81 sq) < unat (SQ_NB example_cfg)" unfolding S by (rule Mir81_range)
    from unat_small_ok(1) [OF example_cfg_ok this] show ?thesis by (simp add: example_cfg_def)
  qed
  moreover have "piece_ok example_cfg m" if "m \<in> set (mir_piece example_cfg)" for m
  proof -
    from that obtain n where "m = word_of_nat (1547 - n)" "n < 1548"
      by (auto simp add: example_cfg_def)
    have "unat (word_of_nat (1547 - n) :: 32 word) = (1547 - n) mod 2 ^ LENGTH(32)"
      by (rule unat_of_nat)
    also have "\<dots> = 1547 - n" by simp
    finally have "unat m < unat (fe_end example_cfg)"
      unfolding F \<open>m = word_of_nat (1547 - n)\<close> by simp
    then show ?thesis by (rule unat_small_ok(2) [OF example_cfg_ok])
  qed
  ultimately show ?thesis by (simp add: tables_ok_def)
qed

lemma folded_valid:
  assumes ok: "config_ok cfg" and t: "tables_ok cfg"
  shows "sq_ok cfg s \<Longrightarrow> sq_ok cfg (Mir cfg s)"
    and "piece_ok cfg p \<Longrightarrow> piece_ok cfg (mir_piece cfg ! unat p)"
proof -
  show "sq_ok cfg s \<Longrightarrow> sq_ok cfg (Mir cfg s)" using t by (simp add: tables_ok_def)
  assume "piece_ok cfg p"
  from mir_piece_at_ok(2) [OF ok this] have "mir_piece cfg ! unat p \<in> set (mir_piece cfg)"
    by (rule nth_mem)
  with t show "piece_ok cfg (mir_piece cfg ! unat p)" by (simp add: tables_ok_def)
qed

lemma only_own_range:
  assumes ok: "config_ok cfg"
  shows "KK_is_ok cfg i \<Longrightarrow> \<not> KKP_is_ok cfg i \<and> \<not> KPP_is_ok cfg i"
    and "KKP_is_ok cfg i \<Longrightarrow> \<not> KK_is_ok cfg i \<and> \<not> KPP_is_ok cfg i"
    and "KPP_is_ok cfg i \<Longrightarrow> \<not> KK_is_ok cfg i \<and> \<not> KKP_is_ok cfg i"
  using ranges_partition(2-4) [OF ok, of i] by blast+

text \<open>
  Claim C7. In a well-formed configuration whose tables keep squares and piece codes in
  range, for every valid tuple of a family, \<open>toLowerDimensions\<close> succeeds and the index of
  every element it produces is in the range of that same family (\<open>is_ok\<close>), and in the
  range of no other family.
\<close>

theorem folding_stays_in_family:
  assumes "config_ok cfg" and "tables_ok cfg"
  shows "(\<forall>kk. KK_valid cfg kk \<longrightarrow>
            (\<exists>l. KK_toLowerDimensions cfg kk = Some l
               \<and> (\<forall>e \<in> set l. KK_is_ok cfg (KK_toIndex cfg e)
                     \<and> \<not> KKP_is_ok cfg (KK_toIndex cfg e)
                     \<and> \<not> KPP_is_ok cfg (KK_toIndex cfg e))))
       \<and> (\<forall>kkp. KKP_valid cfg kkp \<longrightarrow>
            (\<exists>l. KKP_toLowerDimensions cfg kkp = Some l
               \<and> (\<forall>e \<in> set l. KKP_is_ok cfg (KKP_toIndex cfg e)
                     \<and> \<not> KK_is_ok cfg (KKP_toIndex cfg e)
                     \<and> \<not> KPP_is_ok cfg (KKP_toIndex cfg e))))
       \<and> (\<forall>kpp. KPP_valid cfg kpp \<longrightarrow>
            (\<exists>l. KPP_toLowerDimensions cfg kpp = Some l
               \<and> (\<forall>e \<in> set l. KPP_is_ok cfg (KPP_toIndex cfg e)
                     \<and> \<not> KK_is_ok cfg (KPP_toIndex cfg e)
                     \<and> \<not> KKP_is_ok cfg (KPP_toIndex cfg e))))"
proof (intro conjI allI impI)
  fix kk assume v: "KK_valid cfg kk"
  have l: "KK_toLowerDimensions cfg kk = Some [kk]" by (simp add: KK_toLowerDimensions_def)
  from KK_encode_in_range [OF assms(1) v] only_own_range(1) [OF assms(1)]
  show "\<exists>l. KK_toLowerDimensions cfg kk = Some l
          \<and> (\<forall>e \<in> set l. KK_is_ok cfg (KK_toIndex cfg e)
                \<and> \<not> KKP_is_ok cfg (KK_toIndex cfg e)
                \<and> \<not> KPP_is_ok cfg (KK_toIndex cfg e))"
    by (simp add: l)
next
  fix kkp assume v: "KKP_valid cfg kkp"
  then have s: "sq_ok cfg (kkp_king0 kkp)" "sq_ok cfg (kkp_king1 kkp)"
    "piece_ok cfg (kkp_piece kkp)" by (simp_all add: KKP_valid_def)
  let ?m = "\<lparr>kkp_king0 = Mir cfg (kkp_king0 kkp), kkp_king1 = Mir cfg (kkp_king1 kkp),
             kkp_piece = mir_piece cfg ! unat (kkp_piece kkp)\<rparr>"
  have "KKP_valid cfg ?m"
    using s by (simp add: KKP_valid_def folded_valid [OF assms])
  from KKP_encode_in_range [OF assms(1) this] KKP_encode_in_range [OF assms(1) v]
    only_own_range(2) [OF assms(1)]
  show "\<exists>l. KKP_toLowerDimensions cfg kkp = Some l
          \<and> (\<forall>e \<in> set l. KKP_is_ok cfg (KKP_toIndex cfg e)
                \<and> \<not> KK_is_ok cfg (KKP_toIndex cfg e)
                \<and> \<not> KPP_is_ok cfg (KKP_toIndex cfg e))"
    by (simp add: KKP_toLowerDimensions_ok [OF assms(1) s(3)])
next
  fix kpp assume v: "KPP_valid cfg kpp"
  then have s: "sq_ok cfg (kpp_king kpp)" "piece_ok cfg (kpp_piece0 kpp)"
    "piece_ok cfg (kpp_piece1 kpp)" by (simp_all add: KPP_valid_def)
  let ?a = "\<lparr>kpp_king = kpp_king kpp, kpp_piece0 = kpp_piece1 kpp, kpp_piece1 = kpp_piece0 kpp\<rparr>"
  let ?b = "\<lparr>kpp_king = Mir cfg (kpp_king kpp),
             kpp_piece0 = mir_piece cfg ! unat (kpp_piece0 kpp),
             kpp_piece1 = mir_piece cfg ! unat (kpp_piece1 kpp)\<rparr>"
  let ?c = "\<lparr>kpp_king = Mir cfg (kpp_king kpp),
             kpp_piece0 = mir_piece cfg ! unat (kpp_piece1 kpp),
             kpp_piece1 = mir_piece cfg ! unat (kpp_piece0 kpp)\<rparr>"
  have "KPP_valid cfg ?a" "KPP_valid cfg ?b" "KPP_valid cfg ?c"
    using s by (simp_all add: KPP_valid_def folded_valid [OF assms])
  from this [THEN KPP_encode_in_range [OF assms(1)]] KPP_encode_in_range [OF assms(1) v]
    only_own_range(3) [OF assms(1)]
  show "\<exists>l. KPP_toLowerDimensions cfg kpp = Some l
          \<and> (\<forall>e \<in> set l. KPP_is_ok cfg (KPP_toIndex cfg e)
                \<and> \<not> KK_is_ok cfg (KPP_toIndex cfg e)
                \<and> \<not> KKP_is_ok cfg (KPP_toIndex cfg e))"
    by (simp add: KPP_toLowerDimensions_ok [OF assms(1) s(2,3)])
qed

lemma example_valid:
  "KK_valid example_cfg \<lparr>kk_king0 = 5, kk_king1 = 7\<rparr>"
  "KKP_valid example_cfg \<lparr>kkp_king0 = 5, kkp_king1 = 7, kkp_piece = 10\<rparr>"
  "KPP_valid example_cfg \<lparr>kpp_king = 5, kpp_piece0 = 10, kpp_piece1 = 20\<rparr>"
  "KPP_valid example_cfg \<lparr>kpp_king = 5, kpp_piece0 = 20, kpp_piece1 = 10\<rparr>"
  by (simp_all add: KK_valid_def KKP_valid_def KPP_valid_def sq_ok_def piece_ok_def
      example_cfg_def word_sle_eq)

lemma example_folded:
  "KKP_toLowerDimensions example_cfg \<lparr>kkp_king0 = 5, kkp_king1 = 7, kkp_piece = 10\<rparr>
     = Some [\<lparr>kkp_king0 = 5, kkp_king1 = 7, kkp_piece = 10\<rparr>,
             \<lparr>kkp_king0 = 77, kkp_king1 = 79, kkp_piece = 1537\<rparr>]"
  "KPP_toLowerDimensions example_cfg \<lparr>kpp_king = 5, kpp_piece0 = 10, kpp_piece1 = 20\<rparr>
     = Some [\<lparr>kpp_king = 5, kpp_piece0 = 10, kpp_piece1 = 20\<rparr>,
             \<lparr>kpp_king = 5, kpp_piece0 = 20, kpp_piece1 = 10\<rparr>,
             \<lparr>kpp_king = 77, kpp_piece0 = 1537, kpp_piece1 = 1527\<rparr>,
             \<lparr>kpp_king = 77, kpp_piece0 = 1527, kpp_piece1 = 1537\<rparr>]"
  by (simp_all add: KKP_toLowerDimensions_def KPP_toLowerDimensions_def mir_piece_at_def
      example_cfg_def Mir81_def word_sle_eq word_sless_alt)

theorem folding_stays_in_family_witness:
  "config_ok example_cfg \<and> tables_ok example_cfg
   \<and> KK_valid example_cfg \<lparr>kk_king0 = 5, kk_king1 = 7\<rparr>
   \<and> KK_is_ok example_cfg (KK_toIndex example_cfg \<lparr>kk_king0 = 5, kk_king1 = 7\<rparr>)
   \<and> KKP_valid example_cfg \<lparr>kkp_king0 = 5, kkp_king1 = 7, kkp_piece = 10\<rparr>
   \<and> KKP_is_ok example_cfg
        (KKP_toIndex example_cfg \<lparr>kkp_king0 = 77, kkp_king1 = 79, kkp_piece = 1537\<rparr>)
   \<and> KPP_valid example_cfg \<lparr>kpp_king = 5, kpp_piece0 = 10, kpp_piece1 = 20\<rparr>
   \<and> KPP_is_ok example_cfg
        (KPP_toIndex example_cfg \<lparr>kpp_king = 5, kpp_piece0 = 20, kpp_piece1 = 10\<rparr>)
   \<and> KPP_is_ok example_cfg
        (KPP_toIndex example_cfg \<lparr>kpp_king = 77, kpp_piece0 = 1537, kpp_piece1 = 1527\<rparr>)
   \<and> KPP_is_ok example_cfg
        (KPP_toIndex example_cfg \<lparr>kpp_king = 77, kpp_piece0 = 1527, kpp_piece1 = 1537\<rparr>)
   \<and> \<not> KKP_is_ok example_cfg
        (KPP_toIndex example_cfg \<lparr>kpp_king = 77, kpp_piece0 = 1527, kpp_piece1 = 1537\<rparr>)"
proof -
  note t = folding_stays_in_family [OF example_cfg_ok example_tables_ok]
  from t example_valid(1) have a:
    "KK_is_ok example_cfg (KK_toIndex example_cfg \<lparr>kk_king0 = 5, kk_king1 = 7\<rparr>)"
    by (auto simp add: KK_toLowerDimensions_def)
  from t example_valid(2) example_folded(1) have b:
    "KKP_is_ok example_cfg
       (KKP_toIndex example_cfg \<lparr>kkp_king0 = 77, kkp_king1 = 79, kkp_piece = 1537\<rparr>)"
    by fastforce
  from t example_valid(3) example_folded(2) have c:
    "\<forall>e \<in> set [\<lparr>kpp_king = 5, kpp_piece0 = 10, kpp_piece1 = 20\<rparr>,
             \<lparr>kpp_king = 5, kpp_piece0 = 20, kpp_piece1 = 10\<rparr>,
             \<lparr>kpp_king = 77, kpp_piece0 = 1537, kpp_piece1 = 1527\<rparr>,
             \<lparr>kpp_king = 77, kpp_piece0 = 1527, kpp_piece1 = 1537\<rparr>].
       KPP_is_ok example_cfg (KPP_toIndex example_cfg e)
       \<and> \<not> KK_is_ok example_cfg (KPP_toIndex example_cfg e)
       \<and> \<not> KKP_is_ok example_cfg (KPP_toIndex example_cfg e)"
    by fastforce
  from a b c example_cfg_ok example_tables_ok example_valid show ?thesis by simp
qed

section \<open>Piece order in KPP\<close>

text \<open>
  Claim C10. In a well-formed configuration, for every king square and every two distinct
  piece codes in range, the tuples \<open>(k, p0, p1)\<close> and \<open>(k, p1, p0)\<close> have different indices,
  both in the KPP range; the encoding does not identify the two orders, and the swapped
  tuple is the second element that \<open>toLowerDimensions\<close> lists.
\<close>

theorem KPP_piece_order_distinct:
  assumes "config_ok cfg" and "sq_ok cfg k" and "piece_ok cfg p0" and "piece_ok cfg p1"
    and "p0 \<noteq> p1"
  shows "KPP_toIndex cfg \<lparr>kpp_king = k, kpp_piece0 = p0, kpp_piece1 = p1\<rparr>
           \<noteq> KPP_toIndex cfg \<lparr>kpp_king = k, kpp_piece0 = p1, kpp_piece1 = p0\<rparr>
       \<and> KPP_is_ok cfg (KPP_toIndex cfg \<lparr>kpp_king = k, kpp_piece0 = p0, kpp_piece1 = p1\<rparr>)
       \<and> KPP_is_ok cfg (KPP_toIndex cfg \<lparr>kpp_king = k, kpp_piece0 = p1, kpp_piece1 = p0\<rparr>)
       \<and> map_option (\<lambda>l. l ! 1)
            (KPP_toLowerDimensions cfg \<lparr>kpp_king = k, kpp_piece0 = p0, kpp_piece1 = p1\<rparr>)
           = Some \<lparr>kpp_king = k, kpp_piece0 = p1, kpp_piece1 = p0\<rparr>"
proof -
  let ?a = "\<lparr>kpp_king = k, kpp_piece0 = p0, kpp_piece1 = p1\<rparr>"
  let ?b = "\<lparr>kpp_king = k, kpp_piece0 = p1, kpp_piece1 = p0\<rparr>"
  have va: "KPP_valid cfg ?a" and vb: "KPP_valid cfg ?b"
    using assms(2-4) by (simp_all add: KPP_valid_def)
  have "KPP_toIndex cfg ?a \<noteq> KPP_toIndex cfg ?b"
  proof
    assume "KPP_toIndex cfg ?a = KPP_toIndex cfg ?b"
    then have "KPP_fromIndex cfg (KPP_toIndex cfg ?a) = KPP_fromIndex cfg (KPP_toIndex cfg ?b)"
      by simp
    then have "?a = ?b"
      by (simp only: KPP_decode_encode [OF assms(1) va] KPP_decode_encode [OF assms(1) vb]
          option.inject)
    with assms(5) show False by simp
  qed
  moreover note KPP_encode_in_range [OF assms(1) va] KPP_encode_in_range [OF assms(1) vb]
  moreover have "map_option (\<lambda>l. l ! 1) (KPP_toLowerDimensions cfg ?a) = Some ?b"
    using KPP_toLowerDimensions_ok [OF assms(1), of ?a] assms(3,4) by simp
  ultimately show ?thesis by blast
qed

theorem KPP_piece_order_distinct_witness:
  "config_ok example_cfg \<and> sq_ok example_cfg 5 \<and> piece_ok example_cfg 10
   \<and> piece_ok example_cfg 20 \<and> (10 :: BonaPiece) \<noteq> 20
   \<and> KPP_toIndex example_cfg \<lparr>kpp_king = 5, kpp_piece0 = 10, kpp_piece1 = 20\<rparr>
       \<noteq> KPP_toIndex example_cfg \<lparr>kpp_king = 5, kpp_piece0 = 20, kpp_piece1 = 10\<rparr>
   \<and> KPP_is_ok example_cfg
        (KPP_toIndex example_cfg \<lparr>kpp_king = 5, kpp_piece0 = 10, kpp_piece1 = 20\<rparr>)
   \<and> KPP_is_ok example_cfg
        (KPP_toIndex example_cfg \<lparr>kpp_king = 5, kpp_piece0 = 20, kpp_piece1 = 10\<rparr>)"
proof -
  have h: "sq_ok example_cfg 5" "piece_ok example_cfg 10" "piece_ok example_cfg 20"
    "(10 :: BonaPiece) \<noteq> 20"
    by (simp_all add: sq_ok_def piece_ok_def example_cfg_def word_sle_eq)
  from KPP_piece_order_distinct [OF example_cfg_ok h] h example_cfg_ok
  show ?thesis by simp
qed

section \<open>The clamp of the AdaGrad update\<close>

lemma clamp_V_finite:
  "clamp_V V = NegZero
   \<or> clamp_V V = Num (fp_fin (clamp_V V))
     \<and> - 24576 \<le> fp_fin (clamp_V V) \<and> fp_fin (clamp_V V) \<le> 98301 / 4"
  by (cases V) (auto simp add: clamp_V_def fp_min_def fp_max_def clamp_hi_def clamp_lo_def)

lemma clamp_V_cases:
  "clamp_V V = NegZero \<or> (\<exists>r. clamp_V V = Num r \<and> - 24576 \<le> r \<and> r \<le> 98301 / 4)"
  using clamp_V_finite [of V] by blast

lemma round_away_range:
  assumes "- 24576 \<le> r" "r \<le> 98301 / 4"
  shows "- 24576 \<le> round_away r" and "round_away r \<le> 24575"
proof -
  show "- 24576 \<le> round_away r"
  proof (cases "0 \<le> r")
    case True
    then have "0 \<le> \<lfloor>r + 1 / 2\<rfloor>" by simp
    then show ?thesis using True by (simp add: round_away_def)
  next
    case False
    have "- 24576 \<le> \<lceil>r - 1 / 2\<rceil>" using assms(1) by (simp add: le_ceiling_iff)
    then show ?thesis using False by (simp add: round_away_def)
  qed
  show "round_away r \<le> 24575"
  proof (cases "0 \<le> r")
    case True
    have "r + 1 / 2 < real_of_int 24576" using assms(2) by simp
    then have "\<lfloor>r + 1 / 2\<rfloor> < 24576" by (simp only: floor_less_iff)
    then show ?thesis using True by (simp add: round_away_def)
  next
    case False
    then have "\<lceil>r - 1 / 2\<rceil> \<le> 0" by (simp add: ceiling_le_iff)
    then show ?thesis using False by (simp add: round_away_def)
  qed
qed

lemma trunc_real_of_int: "trunc_real (of_int k) = k"
  by (simp add: trunc_real_def)

lemma word_of_int_s16_range:
  assumes len: "16 \<le> LENGTH('t::len)" and k: "- 24576 \<le> k" "k \<le> 24575"
  shows "- (2 ^ (LENGTH('t) - 1)) \<le> k" and "k < 2 ^ (LENGTH('t) - 1)"
    and "sint (word_of_int k :: 't word) = k"
proof -
  have "(2::int) ^ 15 \<le> 2 ^ (LENGTH('t) - 1)"
    using len by (intro power_increasing) simp_all
  then have p: "(32768::int) \<le> 2 ^ (LENGTH('t) - 1)" by simp
  show l: "- (2 ^ (LENGTH('t) - 1)) \<le> k" using p k by linarith
  show u: "k < 2 ^ (LENGTH('t) - 1)" using p k by linarith
  have "sint (word_of_int k :: 't word) = signed_take_bit (LENGTH('t) - 1) k"
    by (rule sint_sbintrunc')
  also have "\<dots> = k" using l u by (rule signed_take_bit_int_eq_self)
  finally show "sint (word_of_int k :: 't word) = k" .
qed

lemma clamp_store:
  assumes len: "16 \<le> LENGTH('t::len)"
  shows "\<exists>x :: 't word. fp_to_word (fp_round (clamp_V V)) = Some x
           \<and> - 24576 \<le> sint x \<and> sint x \<le> 24575"
proof -
  from clamp_V_cases [of V] show ?thesis
  proof
    assume "clamp_V V = NegZero"
    then show ?thesis by (simp add: fp_to_word_def)
  next
    assume "\<exists>r. clamp_V V = Num r \<and> - 24576 \<le> r \<and> r \<le> 98301 / 4"
    then obtain r where c: "clamp_V V = Num r" and r: "- 24576 \<le> r" "r \<le> 98301 / 4" by blast
    note k = round_away_range [OF r]
    note w = word_of_int_s16_range [OF len k]
    have "fp_to_word (fp_round (clamp_V V)) = Some (word_of_int (round_away r) :: 't word)"
      using w(1,2) by (simp add: c fp_to_word_def trunc_real_of_int Let_def)
    with w(3) k show ?thesis by simp
  qed
qed

lemma adagrad_step_updated:
  assumes len: "16 \<le> LENGTH('t::len)"
    and nz: "\<not> fp_eq (at2 (weight_g w) i) (Num 0)"
    and st: "adagrad_step ops eta i (w, v :: 't word array2) = Some (w', v')"
  shows "- 24576 \<le> sint (at2 v' i) \<and> sint (at2 v' i) \<le> 24575"
proof -
  define V where "V = adagrad_V ops eta (at2 (weight_g w) i)
      (at2 (upd2 (weight_g2 w) i (f_add ops (at2 (weight_g2 w) i)
          (f_mul ops (at2 (weight_g w) i) (at2 (weight_g w) i)))) i)
      (at2 (weight_v8 w) i) (at2 v i)"
  from clamp_store [OF len, of V] obtain x :: "'t word"
    where x: "fp_to_word (fp_round (clamp_V V)) = Some x"
      and b: "- 24576 \<le> sint x" "sint x \<le> 24575" by blast
  from st nz x have "v' = upd2 v i x"
    by (auto simp add: adagrad_step_def Let_def V_def split: option.splits)
  then have "at2 v' i = x" by (simp add: at2_def upd2_def)
  with b show ?thesis by simp
qed

lemma adagrad_step_other:
  assumes st: "adagrad_step ops eta j (w, v) = Some (w', v')" and ne: "(i = 0) \<noteq> (j = 0)"
  shows "at2 v' i = at2 v i" and "at2 (weight_v8 w') i = at2 (weight_v8 w) i"
    and "at2 (weight_g2 w') i = at2 (weight_g2 w) i" and "weight_g w' = weight_g w"
  using st ne
  by (auto simp add: adagrad_step_def Let_def at2_def upd2_def split: if_splits option.splits)

lemma adagrad_step_zero:
  assumes "fp_eq (at2 (weight_g w) i) (Num 0)"
  shows "adagrad_step ops eta i (w, v) = Some (w, v)"
  using assms by (simp add: adagrad_step_def)

lemma updateFV_adagrad_steps:
  assumes "updateFV_adagrad ops eta w v = Some (w', v')"
  obtains w1 v1 where "adagrad_step ops eta 0 (w, v) = Some (w1, v1)"
    and "adagrad_step ops eta 1 (w1, v1) = Some (w', v')"
  using assms by (auto simp add: updateFV_adagrad_def bind_eq_Some_conv)

section \<open>An example run of the AdaGrad update\<close>

lemma clamp_V_low:
  assumes "r \<le> - 24576"
  shows "clamp_V (Num r) = Num (- 24576)"
  using assms by (simp add: clamp_V_def fp_min_def fp_max_def clamp_hi_def clamp_lo_def)

lemma example_sqrt: "0 < sqrt (1000001 / 1000000)" "sqrt (1000001 / 1000000) \<le> 2"
proof -
  show "0 < sqrt (1000001 / 1000000)" by simp
  have "sqrt (1000001 / 1000000) \<le> sqrt 4" by (simp only: real_sqrt_le_iff)
  then show "sqrt (1000001 / 1000000) \<le> 2" by simp
qed

lemma example_gradient_step: "- (100000 / sqrt (1000001 / 1000000)) \<le> - 24576"
proof -
  have "100000 / 2 \<le> 100000 / sqrt (1000001 / 1000000)"
    using example_sqrt by (intro divide_left_mono) simp_all
  then show ?thesis by simp
qed

lemma example_V:
  "adagrad_V exact_fpu (Num 100000) (Num 1) (Num 1) 0 (0 :: 16 word)
     = Num (- (100000 / sqrt (1000001 / 1000000)))"
  by (simp add: adagrad_V_def exact_fpu_def lift2_def fp_of_word_def epsilon_def)

lemma adagrad_step_nonzero:
  assumes "\<not> fp_eq (at2 (weight_g w) i) (Num 0)"
    and "g2i = f_add ops (at2 (weight_g2 w) i)
                 (f_mul ops (at2 (weight_g w) i) (at2 (weight_g w) i))"
    and "V = clamp_V (adagrad_V ops eta (at2 (weight_g w) i) g2i (at2 (weight_v8 w) i)
                 (at2 v i))"
    and "fp_to_word (fp_round V) = Some vi"
    and "fp_to_word (d_mul ops (d_sub ops V (fp_of_word vi)) (Num 127)) = Some c"
  shows "adagrad_step ops eta i (w, v)
       = Some (w\<lparr>weight_g2 := upd2 (weight_g2 w) i g2i,
                 weight_v8 := upd2 (weight_v8 w) i c\<rparr>, upd2 v i vi)"
proof -
  have a: "at2 (upd2 (weight_g2 w) i g2i) i = g2i" by (simp add: at2_def upd2_def)
  show ?thesis
    using assms(1) assms(4,5) [unfolded assms(3)]
    by (simp add: adagrad_step_def Let_def a flip: assms(2))
qed

lemma example_adagrad_step:
  "adagrad_step exact_fpu (Num 100000) 1
     (\<lparr>weight_g = (Num 0, Num 1), weight_g2 = (Num 0, Num 0), weight_v8 = (5, 0)\<rparr>,
      (7, 0 :: 16 word))
   = Some (\<lparr>weight_g = (Num 0, Num 1), weight_g2 = (Num 0, Num 1), weight_v8 = (5, 0)\<rparr>,
      (7, - 24576))"
proof -
  let ?w = "\<lparr>weight_g = (Num 0, Num 1), weight_g2 = (Num 0, Num 0), weight_v8 = (5, 0)\<rparr>"
  have nz: "\<not> fp_eq (at2 (weight_g ?w) 1) (Num 0)" by (simp add: at2_def)
  have g2: "Num 1 = f_add exact_fpu (at2 (weight_g2 ?w) 1)
                      (f_mul exact_fpu (at2 (weight_g ?w) 1) (at2 (weight_g ?w) 1))"
    by (simp add: exact_fpu_def lift2_def at2_def)
  have "clamp_V (adagrad_V exact_fpu (Num 100000) (Num 1) (Num 1) 0 (0 :: 16 word))
             = Num (- 24576)"
    unfolding example_V using example_gradient_step by (rule clamp_V_low)
  then have c: "Num (- 24576) = clamp_V (adagrad_V exact_fpu (Num 100000)
      (at2 (weight_g ?w) 1) (Num 1) (at2 (weight_v8 ?w) 1) (at2 (7, 0 :: 16 word) 1))"
    by (simp add: at2_def)
  have r: "fp_to_word (fp_round (Num (- 24576))) = Some (- 24576 :: 16 word)"
    by (simp add: fp_to_word_def round_away_def trunc_real_def)
  have v8: "fp_to_word (d_mul exact_fpu (d_sub exact_fpu (Num (- 24576))
                (fp_of_word (- 24576 :: 16 word))) (Num 127)) = Some (0 :: 8 word)"
    by (simp add: exact_fpu_def lift2_def fp_of_word_def fp_to_word_def trunc_real_def)
  from adagrad_step_nonzero [OF nz g2 c r v8] show ?thesis by (simp add: upd2_def)
qed

lemma example_updateFV_adagrad:
  "updateFV_adagrad exact_fpu (Num 100000)
     \<lparr>weight_g = (Num 0, Num 1), weight_g2 = (Num 0, Num 0), weight_v8 = (5, 0)\<rparr>
     (7, 0 :: 16 word)
   = Some (\<lparr>weight_g = (Num 0, Num 1), weight_g2 = (Num 0, Num 1), weight_v8 = (5, 0)\<rparr>,
      (7, - 24576))"
proof -
  have "adagrad_step exact_fpu (Num 100000) 0
     (\<lparr>weight_g = (Num 0, Num 1), weight_g2 = (Num 0, Num 0), weight_v8 = (5, 0)\<rparr>,
      (7, 0 :: 16 word))
    = Some (\<lparr>weight_g = (Num 0, Num 1), weight_g2 = (Num 0, Num 0), weight_v8 = (5, 0)\<rparr>,
      (7, 0 :: 16 word))"
    by (rule adagrad_step_zero) (simp add: at2_def)
  then show ?thesis
    unfolding updateFV_adagrad_def by (simp only: bind.bind_lunit example_adagrad_step)
qed

lemma stored_bounds_real:
  assumes "- 24576 \<le> (k::int)" "k \<le> 24575"
  shows "- 32768 * 3 / 4 \<le> real_of_int k \<and> real_of_int k \<le> 32767 * 3 / 4"
proof -
  have "real_of_int (- 24576) \<le> real_of_int k" using assms(1) by (simp only: of_int_le_iff)
  moreover have "real_of_int k \<le> real_of_int 24575" using assms(2) by (simp only: of_int_le_iff)
  ultimately show ?thesis by simp
qed

section \<open>The AdaGrad update with arithmetic free of rounding error\<close>

lemma round_away_near:
  "\<bar>r - real_of_int (round_away r)\<bar> \<le> 1 / 2"
proof (cases "0 \<le> r")
  case True
  then have e: "round_away r = \<lfloor>r + 1 / 2\<rfloor>" by (simp add: round_away_def)
  show ?thesis unfolding e by linarith
next
  case False
  then have e: "round_away r = \<lceil>r - 1 / 2\<rceil>" by (simp add: round_away_def)
  show ?thesis unfolding e by linarith
qed

lemma carry_fits:
  assumes "\<bar>d\<bar> \<le> 1 / 2"
  shows "\<exists>c :: 8 word. fp_to_word (Num (d * 127)) = Some c"
proof -
  have "- 64 < d * 127" "d * 127 < 64" using assms by (simp_all add: abs_le_iff)
  then have "- 64 \<le> trunc_real (d * 127)" "trunc_real (d * 127) \<le> 64"
    by (simp_all add: trunc_real_def le_floor_iff ceiling_le_iff le_ceiling_iff floor_le_iff)
  then show ?thesis by (simp add: fp_to_word_def Let_def)
qed

lemma clamp_store_value:
  assumes len: "16 \<le> LENGTH('t::len)"
  shows "\<exists>x :: 't word. fp_to_word (fp_round (clamp_V V)) = Some x
           \<and> sint x = round_away (fp_fin (clamp_V V))"
proof -
  from clamp_V_finite [of V] show ?thesis
  proof
    assume "clamp_V V = NegZero"
    then show ?thesis by (simp add: fp_to_word_def round_away_def)
  next
    assume a: "clamp_V V = Num (fp_fin (clamp_V V))
        \<and> - 24576 \<le> fp_fin (clamp_V V) \<and> fp_fin (clamp_V V) \<le> 98301 / 4"
    define r where "r = fp_fin (clamp_V V)"
    from a have c: "clamp_V V = Num r" and r: "- 24576 \<le> r" "r \<le> 98301 / 4"
      by (simp_all add: r_def)
    note k = round_away_range [OF r]
    note w = word_of_int_s16_range [OF len k]
    have "fp_to_word (fp_round (clamp_V V)) = Some (word_of_int (round_away r) :: 't word)"
      using w(1,2) by (simp add: c fp_to_word_def trunc_real_of_int Let_def)
    with w(3) show ?thesis by (simp add: r_def)
  qed
qed

lemma exact_carry:
  assumes len: "16 \<le> LENGTH('t::len)"
    and x: "fp_to_word (fp_round (clamp_V V)) = Some (x :: 't word)"
  shows "\<exists>c :: 8 word.
           fp_to_word (d_mul exact_fpu (d_sub exact_fpu (clamp_V V) (fp_of_word x)) (Num 127))
             = Some c"
proof -
  from clamp_store_value [OF len, of V] x
  have s: "sint x = round_away (fp_fin (clamp_V V))" by simp
  have n: "clamp_V V \<notin> {PInf, NInf, NaN}" using clamp_V_finite [of V] by auto
  have "d_mul exact_fpu (d_sub exact_fpu (clamp_V V) (fp_of_word x)) (Num 127)
          = Num ((fp_fin (clamp_V V) - real_of_int (round_away (fp_fin (clamp_V V)))) * 127)"
    using n by (simp add: exact_fpu_def lift2_def fp_of_word_def s)
  with carry_fits [OF round_away_near] show ?thesis by simp
qed

lemma exact_adagrad_step_total:
  assumes len: "16 \<le> LENGTH('t::len)"
  shows "\<exists>r. adagrad_step exact_fpu eta i (w, v :: 't word array2) = Some r"
proof (cases "fp_eq (at2 (weight_g w) i) (Num 0)")
  case True
  then show ?thesis by (simp add: adagrad_step_zero)
next
  case False
  define g2i where "g2i = f_add exact_fpu (at2 (weight_g2 w) i)
      (f_mul exact_fpu (at2 (weight_g w) i) (at2 (weight_g w) i))"
  define V where "V = adagrad_V exact_fpu eta (at2 (weight_g w) i) g2i (at2 (weight_v8 w) i)
      (at2 v i)"
  from clamp_store [OF len, of V] obtain x :: "'t word"
    where x: "fp_to_word (fp_round (clamp_V V)) = Some x" by blast
  from exact_carry [OF len x] obtain c :: "8 word"
    where c: "fp_to_word (d_mul exact_fpu (d_sub exact_fpu (clamp_V V) (fp_of_word x)) (Num 127))
                = Some c" by blast
  from adagrad_step_nonzero [OF False g2i_def refl x [unfolded V_def] c [unfolded V_def]]
  show ?thesis by blast
qed

lemma exact_updateFV_adagrad_total:
  assumes len: "16 \<le> LENGTH('t::len)"
  shows "\<exists>r. updateFV_adagrad exact_fpu eta w (v :: 't word array2) = Some r"
proof -
  from exact_adagrad_step_total [OF len] obtain w1 v1
    where a: "adagrad_step exact_fpu eta 0 (w, v) = Some (w1, v1)" by fastforce
  from exact_adagrad_step_total [OF len, of eta 1 w1 v1] a show ?thesis
    by (simp add: updateFV_adagrad_def)
qed

section \<open>The AdaGrad update\<close>

text \<open>
  Claim C8. In the AdaGrad variant, when the accumulated gradient of channel \<open>i\<close> is
  exactly 0, the iteration of the loop for \<open>i\<close> changes nothing, and whatever the other
  channel's gradient, a call of \<open>updateFV\<close> leaves the live value \<open>v[i]\<close>, the fractional
  carry \<open>v8[i]\<close> and the accumulator \<open>g2[i]\<close> of channel \<open>i\<close> as they were.
\<close>

theorem adagrad_zero_gradient_frame:
  assumes "i < 2" and "fp_eq (at2 (weight_g w) i) (Num 0)"
  shows "adagrad_step ops eta i (w, v) = Some (w, v)
       \<and> (\<forall>w' v'. updateFV_adagrad ops eta w v = Some (w', v') \<longrightarrow>
             at2 v' i = at2 v i
             \<and> at2 (weight_v8 w') i = at2 (weight_v8 w) i
             \<and> at2 (weight_g2 w') i = at2 (weight_g2 w) i)"
proof (intro conjI allI impI)
  show z: "adagrad_step ops eta i (w, v) = Some (w, v)"
    using assms(2) by (rule adagrad_step_zero)
  fix w' v' assume u: "updateFV_adagrad ops eta w v = Some (w', v')"
  then obtain w1 v1 where s0: "adagrad_step ops eta 0 (w, v) = Some (w1, v1)"
    and s1: "adagrad_step ops eta 1 (w1, v1) = Some (w', v')"
    by (rule updateFV_adagrad_steps)
  have "at2 v' i = at2 v i \<and> at2 (weight_v8 w') i = at2 (weight_v8 w) i
        \<and> at2 (weight_g2 w') i = at2 (weight_g2 w) i"
  proof (cases "i = 0")
    case True
    with z s0 have "w1 = w" "v1 = v" by simp_all
    with adagrad_step_other [OF s1, of i] True show ?thesis by simp
  next
    case False
    with assms(1) have i: "i = 1" by simp
    note o = adagrad_step_other [OF s0, of i]
    have "fp_eq (at2 (weight_g w1) 1) (Num 0)" using assms(2) o(4) i by simp
    from adagrad_step_zero [OF this, of ops eta v1] s1 have "w' = w1" "v' = v1" by simp_all
    with o i show ?thesis by simp
  qed
  then show "at2 v' i = at2 v i" "at2 (weight_v8 w') i = at2 (weight_v8 w) i"
    "at2 (weight_g2 w') i = at2 (weight_g2 w) i" by simp_all
qed

theorem adagrad_zero_gradient_frame_witness:
  "(0 :: nat) < 2
   \<and> fp_eq (at2 (weight_g \<lparr>weight_g = (Num 0, Num 1), weight_g2 = (Num 0, Num 0),
                           weight_v8 = (5, 0)\<rparr>) 0) (Num 0)
   \<and> updateFV_adagrad exact_fpu (Num 100000)
        \<lparr>weight_g = (Num 0, Num 1), weight_g2 = (Num 0, Num 0), weight_v8 = (5, 0)\<rparr>
        (7, 0 :: 16 word)
       = Some (\<lparr>weight_g = (Num 0, Num 1), weight_g2 = (Num 0, Num 1), weight_v8 = (5, 0)\<rparr>,
           (7, - 24576))
   \<and> at2 (7, - 24576 :: 16 word) 0 = at2 (7, 0 :: 16 word) 0
   \<and> at2 (weight_v8 \<lparr>weight_g = (Num 0, Num 1), weight_g2 = (Num 0, Num 1),
                      weight_v8 = (5, 0)\<rparr>) 0 = 5
   \<and> at2 (weight_g2 \<lparr>weight_g = (Num 0, Num 1), weight_g2 = (Num 0, Num 1),
                      weight_v8 = (5, 0)\<rparr>) 0 = Num 0"
proof -
  have h: "fp_eq (at2 (weight_g \<lparr>weight_g = (Num 0, Num 1), weight_g2 = (Num 0, Num 0),
                           weight_v8 = (5, 0)\<rparr>) 0) (Num 0)"
    by (simp add: at2_def)
  from adagrad_zero_gradient_frame [OF _ h, of exact_fpu "Num 100000" "(7, 0 :: 16 word)"]
    example_updateFV_adagrad h
  show ?thesis by (simp add: at2_def)
qed

text \<open>
  Claim C5, as amended. In the AdaGrad variant, with a live value type \<open>T\<close> of at least 16
  bits, the live value that \<open>updateFV\<close> stores for a channel with nonzero accumulated
  gradient lies in the clamp interval \<open>[0.75 * INT16_MIN, 0.75 * INT16_MAX]\<close>, that is
  between -24576 and 24575.25, whatever \<open>g\<close>, \<open>g2\<close>, \<open>v8\<close>, \<open>eta\<close>, the prior live value and
  the results of the floating-point arithmetic are: after the clamp the conversion of
  \<open>round(V)\<close> to \<open>T\<close> is defined for every \<open>V\<close>, infinities and NaN included. (A call
  has no result only when the conversion of the new fractional carry to \<open>s8\<close> is
  undefined; with arithmetic free of rounding error every call has a result.)
\<close>

theorem adagrad_clamp_bound:
  assumes "16 \<le> LENGTH('t::len)" and "i < 2"
    and "\<not> fp_eq (at2 (weight_g w) i) (Num 0)"
    and "updateFV_adagrad ops eta w (v :: 't word array2) = Some (w', v')"
  shows "- 32768 * 3 / 4 \<le> real_of_int (sint (at2 v' i))
       \<and> real_of_int (sint (at2 v' i)) \<le> 32767 * 3 / 4
       \<and> (\<forall>V. \<exists>x :: 't word. fp_to_word (fp_round (clamp_V V)) = Some x
               \<and> - 32768 * 3 / 4 \<le> real_of_int (sint x)
               \<and> real_of_int (sint x) \<le> 32767 * 3 / 4)
       \<and> (\<exists>r. updateFV_adagrad exact_fpu eta w v = Some r)"
proof -
  from assms(4) obtain w1 v1 where s0: "adagrad_step ops eta 0 (w, v) = Some (w1, v1)"
    and s1: "adagrad_step ops eta 1 (w1, v1) = Some (w', v')"
    by (rule updateFV_adagrad_steps)
  have b: "- 24576 \<le> sint (at2 v' i) \<and> sint (at2 v' i) \<le> 24575"
  proof (cases "i = 0")
    case True
    have "\<not> fp_eq (at2 (weight_g w) 0) (Num 0)" using assms(3) True by simp
    from adagrad_step_updated [OF assms(1) this s0] True
    have "- 24576 \<le> sint (at2 v1 i) \<and> sint (at2 v1 i) \<le> 24575" by simp
    with adagrad_step_other(1) [OF s1, of i] True show ?thesis by simp
  next
    case False
    with assms(2) have i: "i = 1" by simp
    from adagrad_step_other(4) [OF s0, of i] i assms(3)
    have "\<not> fp_eq (at2 (weight_g w1) 1) (Num 0)" by simp
    from adagrad_step_updated [OF assms(1) this s1] i show ?thesis by simp
  qed
  have c: "\<exists>x :: 't word. fp_to_word (fp_round (clamp_V V)) = Some x
               \<and> - 32768 * 3 / 4 \<le> real_of_int (sint x)
               \<and> real_of_int (sint x) \<le> 32767 * 3 / 4" for V
  proof -
    from clamp_store [OF assms(1), of V] obtain x :: "'t word"
      where x: "fp_to_word (fp_round (clamp_V V)) = Some x"
        and "- 24576 \<le> sint x" "sint x \<le> 24575"
      by blast
    from stored_bounds_real [OF this(2,3)] x show ?thesis by blast
  qed
  from b have "- 24576 \<le> sint (at2 v' i)" "sint (at2 v' i) \<le> 24575" by blast+
  from stored_bounds_real [OF this] c exact_updateFV_adagrad_total [OF assms(1), of eta w v]
  show ?thesis by blast
qed

theorem adagrad_clamp_bound_witness:
  "16 \<le> LENGTH(16) \<and> (1 :: nat) < 2
   \<and> \<not> fp_eq (at2 (weight_g \<lparr>weight_g = (Num 0, Num 1), weight_g2 = (Num 0, Num 0),
                             weight_v8 = (5, 0)\<rparr>) 1) (Num 0)
   \<and> updateFV_adagrad exact_fpu (Num 100000)
        \<lparr>weight_g = (Num 0, Num 1), weight_g2 = (Num 0, Num 0), weight_v8 = (5, 0)\<rparr>
        (7, 0 :: 16 word)
       = Some (\<lparr>weight_g = (Num 0, Num 1), weight_g2 = (Num 0, Num 1), weight_v8 = (5, 0)\<rparr>,
           (7, - 24576))
   \<and> - 32768 * 3 / 4 \<le> real_of_int (sint (at2 (7, - 24576 :: 16 word) 1))
   \<and> real_of_int (sint (at2 (7, - 24576 :: 16 word) 1)) \<le> 32767 * 3 / 4"
proof -
  have h: "\<not> fp_eq (at2 (weight_g \<lparr>weight_g = (Num 0, Num 1), weight_g2 = (Num 0, Num 0),
                             weight_v8 = (5, 0)\<rparr>) 1) (Num 0)"
    by (simp add: at2_def)
  have l: "16 \<le> LENGTH(16)" "(1 :: nat) < 2" by simp_all
  from adagrad_clamp_bound [OF l h example_updateFV_adagrad] h l example_updateFV_adagrad
  show ?thesis by blast
qed

text \<open>
  The interval of the claim as stated, \<open>[-0.75 * INT16_MAX, 0.75 * INT16_MAX]\<close>, is left
  below: with gradient 1, \<open>eta\<close> = 100000 and everything else 0, the update stores -24576,
  which is less than \<open>-0.75 * 32767 = -24575.25\<close>.
\<close>

theorem adagrad_clamp_bound_counterexample:
  "\<not> fp_eq (at2 (weight_g \<lparr>weight_g = (Num 0, Num 1), weight_g2 = (Num 0, Num 0),
                           weight_v8 = (5, 0)\<rparr>) 1) (Num 0)
   \<and> map_option (\<lambda>r. at2 (snd r) 1)
        (updateFV_adagrad exact_fpu (Num 100000)
           \<lparr>weight_g = (Num 0, Num 1), weight_g2 = (Num 0, Num 0), weight_v8 = (5, 0)\<rparr>
           (7, 0 :: 16 word))
       = Some (- 24576)
   \<and> real_of_int (sint (- 24576 :: 16 word)) < - (3 / 4 * 32767)"
  by (simp add: example_updateFV_adagrad at2_def)

section \<open>The sign-SGD update\<close>





lemma sgd_clamp_inside:
  fixes V :: "'t::len word"
  assumes len: "16 \<le> LENGTH('t)" and b: "- 24576 \<le> sint V" "sint V \<le> 24575"
  shows "sgd_clamp V = V"
proof -
  have up: "is_up (scast :: 16 word \<Rightarrow> 't word)" using len by (simp add: is_up)
  have "(2::int) ^ 15 \<le> 2 ^ (LENGTH('t) - 1)"
    using len by (intro power_increasing) simp_all
  have s16: "sint (scast V :: 16 word) = sint V"
  proof -
    have "sint (scast V :: 16 word) = signed_take_bit (LENGTH(16) - Suc 0) (sint V)"
      by (rule signed_scast_eq)
    also have "\<dots> = sint V"
      using b by (intro signed_take_bit_int_eq_self) simp_all
    finally show ?thesis .
  qed
  have rt: "(scast (scast V :: 16 word) :: 't word) = V"
  proof (rule signed_word_eqI)
    show "sint (scast (scast V :: 16 word) :: 't word) = sint V"
      using sint_up_scast [OF up, of "scast V"] s16 by simp
  qed
  have m1: "s16_min 24575 (scast V) = scast V"
  proof (cases "(scast V :: 16 word) <s 24575")
    case True
    then show ?thesis by (simp add: s16_min_def)
  next
    case False
    then have "sint (scast V :: 16 word) = sint (24575 :: 16 word)"
      using b(2) by (simp add: word_sless_alt s16)
    then have "(scast V :: 16 word) = 24575" by (rule signed_word_eqI)
    then show ?thesis by (simp add: s16_min_def)
  qed
  have m2: "s16_max (- 24576) (scast V) = scast V"
  proof (cases "- 24576 <s (scast V :: 16 word)")
    case True
    then show ?thesis by (simp add: s16_max_def)
  next
    case False
    then have "sint (scast V :: 16 word) = sint (- 24576 :: 16 word)"
      using b(1) by (simp add: word_sless_alt s16)
    then have "(scast V :: 16 word) = - 24576" by (rule signed_word_eqI)
    then show ?thesis by (simp add: s16_max_def)
  qed
  show ?thesis by (simp add: sgd_clamp_def Let_def m1 rt m2)
qed

lemma sint_pred_succ:
  fixes x :: "'t::len word"
  assumes len: "16 \<le> LENGTH('t)" and b: "- 24576 \<le> sint x" "sint x \<le> 24575"
  shows "sint (x - 1) = sint x - 1" and "sint (x + 1) = sint x + 1"
proof -
  have "(2::int) ^ 15 \<le> 2 ^ (LENGTH('t) - 1)"
    using len by (intro power_increasing) simp_all
  then have p: "(32768::int) \<le> 2 ^ (LENGTH('t) - 1)" by simp
  have "sint (x - 1) = signed_take_bit (LENGTH('t) - 1) (sint x - sint (1 :: 't word))"
    by (rule sint_word_diff)
  also have "sint (1 :: 't word) = 1" using len by (simp add: sint_word_01(2) [where 'a='t])
  also have "signed_take_bit (LENGTH('t) - 1) (sint x - 1) = sint x - 1"
    using b p by (intro signed_take_bit_int_eq_self) linarith+
  finally show "sint (x - 1) = sint x - 1" .
  have "sint (x + 1) = signed_take_bit (LENGTH('t) - 1) (sint x + sint (1 :: 't word))"
    by (rule sint_word_add)
  also have "sint (1 :: 't word) = 1" using len by (simp add: sint_word_01(2) [where 'a='t])
  also have "signed_take_bit (LENGTH('t) - 1) (sint x + 1) = sint x + 1"
    using b p by (intro signed_take_bit_int_eq_self) linarith+
  finally show "sint (x + 1) = sint x + 1" .
qed

lemma sgd_nudge_visible:
  fixes x :: "'t::len word"
  assumes len: "16 \<le> LENGTH('t)" and b: "- 24576 < sint x" "sint x < 24575"
  shows "sgd_clamp (sgd_delta gi x) \<noteq> x"
proof -
  have b': "- 24576 \<le> sint x" "sint x \<le> 24575" using b by simp_all
  note s = sint_pred_succ [OF len b']
  show ?thesis
  proof (cases "fp_lt (Num 0) gi")
    case True
    have "sgd_clamp (x - 1) = x - 1" using b s(1) by (intro sgd_clamp_inside [OF len]) simp_all
    moreover have "x - 1 \<noteq> x" by simp
    ultimately show ?thesis using True by (simp add: sgd_delta_def)
  next
    case False
    have "sgd_clamp (x + 1) = x + 1" using b s(2) by (intro sgd_clamp_inside [OF len]) simp_all
    moreover have "x + 1 \<noteq> x" by simp
    ultimately show ?thesis using False by (simp add: sgd_delta_def)
  qed
qed











end
